theory Spec2Isabelle
  imports Complex_Main "HOL-Library.AList" "HOL-Library.Char_ord" "HOL-Library.List_Lexorder"
    "HOL-Library.Log_Nat"
begin

section \<open>Data model (models.py)\<close>

text \<open>
  The pydantic models of \<^verbatim>\<open>models.py\<close> become records. A Python \<^verbatim>\<open>float\<close> field
  is modelled by the exact rational value of the IEEE double it holds: every finite double is
  a rational, and \<^verbatim>\<open>>\<close> on finite doubles is the order of the rationals. Where
  the code computes a new float (a mean, a rounding), the model rounds the exact result to
  the nearest double (\<open>nearest_double\<close> below). The non-finite doubles (\<^verbatim>\<open>nan\<close>,
  \<^verbatim>\<open>inf\<close>) are outside the model. Python's \<^verbatim>\<open>int\<close> is \<open>int\<close>,
  \<^verbatim>\<open>str\<close> is \<open>string\<close>.

  \<^verbatim>\<open>ServiceStatus\<close> declares exactly three fields of type \<^verbatim>\<open>str\<close>: the three
  service names are fixed by the class, the status values are arbitrary strings.
\<close>

record ServiceStatus =
  database :: string
  api_gateway :: string
  cache :: string

record InputData =
  timestamp :: string
  cpu_usage :: rat
  memory_usage :: rat
  latency_ms :: rat
  disk_usage :: rat
  network_in_kbps :: rat
  network_out_kbps :: rat
  io_wait :: rat
  thread_count :: int
  active_connections :: int
  error_rate :: rat
  uptime_seconds :: int
  temperature_celsius :: rat
  power_consumption_watts :: rat
  service_status :: ServiceStatus

text \<open>
  \<^verbatim>\<open>Insights.error_rate\<close> and \<^verbatim>\<open>Insights.uptime_seconds\<close> carry the suffix
  \<open>_ins\<close>, since \<^verbatim>\<open>InputData\<close> has fields of the same names.
\<close>

record Insights =
  average_latency_ms :: rat
  max_cpu_usage :: rat
  max_memory_usage :: rat
  error_rate_ins :: rat
  uptime_seconds_ins :: int

text \<open>\<^verbatim>\<open>severity: Literal["low", "medium", "high"]\<close>\<close>

datatype Severity = Low | Medium | High

text \<open>
  The description of an anomaly is an f-string over the triggering value. The rendering of a
  float as text is not modelled: a description is the template that was used together with
  the values it embeds.
\<close>

datatype Description =
    CpuReached rat string
  | CpuElevated rat
  | MemoryCritical rat
  | LatencySpike rat
  | ErrorRateCritical rat
  | TemperatureAt rat
  | IoWaitElevated rat

text \<open>\<^verbatim>\<open>Anomaly.value\<close> is the field \<open>value_anom\<close>.\<close>

record Anomaly =
  metric :: string
  value_anom :: rat
  threshold :: rat
  severity :: Severity
  description :: Description

record ServiceStatusSummary =
  online :: "string list"
  degraded :: "string list"
  offline :: "string list"

section \<open>Workflow state and thresholds (nodes.py)\<close>

text \<open>
  \<^verbatim>\<open>GraphState\<close>: the fields the analysis node reads or writes. The remaining fields
  (\<^verbatim>\<open>raw_data\<close>, \<^verbatim>\<open>recommendations\<close>, \<^verbatim>\<open>output\<close>) live in the extension part
  of the record, which the node hands on unchanged. \<^verbatim>\<open>None\<close> is the initial value of
  \<^verbatim>\<open>insights\<close> and \<^verbatim>\<open>service_status_summary\<close>.
\<close>

record GraphState =
  parsed_data :: "InputData list"
  insights :: "Insights option"
  anomalies :: "Anomaly list"
  service_status_summary :: "ServiceStatusSummary option"

text \<open>The exceptions the analysis node can raise.\<close>

datatype error =
    StatisticsError
  | ValueError
  | IndexError
  | KeyError string

text \<open>
  \<^verbatim>\<open>THRESHOLDS\<close>: the table is only ever read at literal keys, so each entry read by the
  code is a constant. The literal \<^verbatim>\<open>0.05\<close> denotes the double nearest to 1/20, which is
  3602879701896397 / 2^56; the other entries are integers.
\<close>

definition THRESHOLDS_cpu_usage_high :: rat where
  "THRESHOLDS_cpu_usage_high = 85"

definition THRESHOLDS_cpu_usage_medium :: rat where
  "THRESHOLDS_cpu_usage_medium = 75"

definition THRESHOLDS_memory_usage_high :: rat where
  "THRESHOLDS_memory_usage_high = 80"

definition THRESHOLDS_latency_ms_high :: rat where
  "THRESHOLDS_latency_ms_high = 250"

definition THRESHOLDS_error_rate_high :: rat where
  "THRESHOLDS_error_rate_high = 3602879701896397 / 72057594037927936"

definition THRESHOLDS_temperature_celsius_high :: rat where
  "THRESHOLDS_temperature_celsius_high = 75"

definition THRESHOLDS_io_wait_high :: rat where
  "THRESHOLDS_io_wait_high = 10"

section \<open>Anomaly detection\<close>

text \<open>
  \<^verbatim>\<open>anomaly_map: Dict[str, Anomaly]\<close> is an association list in insertion order:
  \<open>AList.update\<close> overwrites the value of a key that is present, in place, and appends a
  new key at the end, as assignment to a Python dict does; \<open>map_of\<close> is the lookup;
  \<^verbatim>\<open>list(anomaly_map.values())\<close> is \<open>map snd\<close>.
\<close>

type_synonym anomaly_map = "(string \<times> Anomaly) list"

text \<open>The six blocks of the loop body, in the order of the source.\<close>

definition cpu_check :: "InputData \<Rightarrow> anomaly_map \<Rightarrow> anomaly_map" where
  "cpu_check entry m =
    (if cpu_usage entry > THRESHOLDS_cpu_usage_high then
       (case map_of m ''cpu_usage'' of
          None \<Rightarrow>
            AList.update ''cpu_usage''
              \<lparr>metric = ''cpu_usage'', value_anom = cpu_usage entry,
               threshold = THRESHOLDS_cpu_usage_high, severity = High,
               description = CpuReached (cpu_usage entry) (timestamp entry)\<rparr> m
        | Some old \<Rightarrow>
            if cpu_usage entry > value_anom old then
              AList.update ''cpu_usage''
                \<lparr>metric = ''cpu_usage'', value_anom = cpu_usage entry,
                 threshold = THRESHOLDS_cpu_usage_high, severity = High,
                 description = CpuReached (cpu_usage entry) (timestamp entry)\<rparr> m
            else m)
     else if cpu_usage entry > THRESHOLDS_cpu_usage_medium then
       (case map_of m ''cpu_usage'' of
          None \<Rightarrow>
            AList.update ''cpu_usage''
              \<lparr>metric = ''cpu_usage'', value_anom = cpu_usage entry,
               threshold = THRESHOLDS_cpu_usage_medium, severity = Medium,
               description = CpuElevated (cpu_usage entry)\<rparr> m
        | Some old \<Rightarrow> m)
     else m)"

definition memory_check :: "InputData \<Rightarrow> anomaly_map \<Rightarrow> anomaly_map" where
  "memory_check entry m =
    (if memory_usage entry > THRESHOLDS_memory_usage_high then
       (case map_of m ''memory_usage'' of
          None \<Rightarrow>
            AList.update ''memory_usage''
              \<lparr>metric = ''memory_usage'', value_anom = memory_usage entry,
               threshold = THRESHOLDS_memory_usage_high, severity = High,
               description = MemoryCritical (memory_usage entry)\<rparr> m
        | Some old \<Rightarrow>
            if memory_usage entry > value_anom old then
              AList.update ''memory_usage''
                \<lparr>metric = ''memory_usage'', value_anom = memory_usage entry,
                 threshold = THRESHOLDS_memory_usage_high, severity = High,
                 description = MemoryCritical (memory_usage entry)\<rparr> m
            else m)
     else m)"

definition latency_check :: "InputData \<Rightarrow> anomaly_map \<Rightarrow> anomaly_map" where
  "latency_check entry m =
    (if latency_ms entry > THRESHOLDS_latency_ms_high then
       (case map_of m ''latency_ms'' of
          None \<Rightarrow>
            AList.update ''latency_ms''
              \<lparr>metric = ''latency_ms'', value_anom = latency_ms entry,
               threshold = THRESHOLDS_latency_ms_high, severity = High,
               description = LatencySpike (latency_ms entry)\<rparr> m
        | Some old \<Rightarrow>
            if latency_ms entry > value_anom old then
              AList.update ''latency_ms''
                \<lparr>metric = ''latency_ms'', value_anom = latency_ms entry,
                 threshold = THRESHOLDS_latency_ms_high, severity = High,
                 description = LatencySpike (latency_ms entry)\<rparr> m
            else m)
     else m)"

definition error_rate_check :: "InputData \<Rightarrow> anomaly_map \<Rightarrow> anomaly_map" where
  "error_rate_check entry m =
    (if error_rate entry > THRESHOLDS_error_rate_high then
       (case map_of m ''error_rate'' of
          None \<Rightarrow>
            AList.update ''error_rate''
              \<lparr>metric = ''error_rate'', value_anom = error_rate entry,
               threshold = THRESHOLDS_error_rate_high, severity = High,
               description = ErrorRateCritical (error_rate entry * 100)\<rparr> m
        | Some old \<Rightarrow>
            if error_rate entry > value_anom old then
              AList.update ''error_rate''
                \<lparr>metric = ''error_rate'', value_anom = error_rate entry,
                 threshold = THRESHOLDS_error_rate_high, severity = High,
                 description = ErrorRateCritical (error_rate entry * 100)\<rparr> m
            else m)
     else m)"

definition temperature_check :: "InputData \<Rightarrow> anomaly_map \<Rightarrow> anomaly_map" where
  "temperature_check entry m =
    (if temperature_celsius entry > THRESHOLDS_temperature_celsius_high then
       (case map_of m ''temperature_celsius'' of
          None \<Rightarrow>
            AList.update ''temperature_celsius''
              \<lparr>metric = ''temperature_celsius'', value_anom = temperature_celsius entry,
               threshold = THRESHOLDS_temperature_celsius_high, severity = High,
               description = TemperatureAt (temperature_celsius entry)\<rparr> m
        | Some old \<Rightarrow>
            if temperature_celsius entry > value_anom old then
              AList.update ''temperature_celsius''
                \<lparr>metric = ''temperature_celsius'', value_anom = temperature_celsius entry,
                 threshold = THRESHOLDS_temperature_celsius_high, severity = High,
                 description = TemperatureAt (temperature_celsius entry)\<rparr> m
            else m)
     else m)"

definition io_wait_check :: "InputData \<Rightarrow> anomaly_map \<Rightarrow> anomaly_map" where
  "io_wait_check entry m =
    (if io_wait entry > THRESHOLDS_io_wait_high then
       (case map_of m ''io_wait'' of
          None \<Rightarrow>
            AList.update ''io_wait''
              \<lparr>metric = ''io_wait'', value_anom = io_wait entry,
               threshold = THRESHOLDS_io_wait_high, severity = Medium,
               description = IoWaitElevated (io_wait entry)\<rparr> m
        | Some old \<Rightarrow>
            if io_wait entry > value_anom old then
              AList.update ''io_wait''
                \<lparr>metric = ''io_wait'', value_anom = io_wait entry,
                 threshold = THRESHOLDS_io_wait_high, severity = Medium,
                 description = IoWaitElevated (io_wait entry)\<rparr> m
            else m)
     else m)"

text \<open>One iteration of \<^verbatim>\<open>for entry in data\<close>.\<close>

definition detect_step :: "InputData \<Rightarrow> anomaly_map \<Rightarrow> anomaly_map" where
  "detect_step entry m =
    io_wait_check entry (temperature_check entry (error_rate_check entry
      (latency_check entry (memory_check entry (cpu_check entry m)))))"

text \<open>The loop, from a given map; the scan of the source starts from the empty dict.\<close>

fun detect_loop :: "anomaly_map \<Rightarrow> InputData list \<Rightarrow> anomaly_map" where
  "detect_loop m [] = m"
| "detect_loop m (entry # rest) = detect_loop (detect_step entry m) rest"

definition detect_anomalies :: "InputData list \<Rightarrow> anomaly_map" where
  "detect_anomalies data = detect_loop [] data"

section \<open>Insights\<close>

text \<open>
  Rounding to an integer with a tie going to the even neighbour, as IEEE 754 and Python's
  \<^verbatim>\<open>round\<close> do.
\<close>

definition round_half_even :: "rat \<Rightarrow> int" where
  "round_half_even x =
    (let f = \<lfloor>x\<rfloor>; d = x - of_int f in
     if d < 1 / 2 then f
     else if d > 1 / 2 then f + 1
     else if even f then f else f + 1)"

text \<open>
  The double nearest to a rational (binary64, round to nearest, ties to even). For
  \<open>x > 0\<close>, \<open>binade x\<close> is the exponent \<open>e\<close> with \<open>2^e \<le> x < 2^(e+1)\<close>, found from
  the bit lengths of numerator and denominator. The doubles of that binade are the multiples
  of \<open>2^(e - 52)\<close>; below \<open>2^(-1022)\<close> (subnormal numbers) they are the multiples of
  \<open>2^(-1074)\<close>. Rounding acts on the magnitude and keeps the sign.
\<close>

definition binade :: "rat \<Rightarrow> int" where
  "binade x =
    (let (p, q) = quotient_of x; d = bitlen p - bitlen q in
     if 2 powi d \<le> x then d else d - 1)"

definition round_to_quantum :: "rat \<Rightarrow> rat \<Rightarrow> rat" where
  "round_to_quantum q a = of_int (round_half_even (a / q)) * q"

definition nearest_double :: "rat \<Rightarrow> rat" where
  "nearest_double x =
    sgn x * round_to_quantum (2 powi (max (binade \<bar>x\<bar>) (- 1022) - 52)) \<bar>x\<bar>"

text \<open>The largest finite double, \<^verbatim>\<open>sys.float_info.max\<close>.\<close>

definition max_double :: rat where
  "max_double = (2 ^ 53 - 1) * 2 ^ 971"

text \<open>
  \<^verbatim>\<open>statistics.mean\<close> raises \<^verbatim>\<open>StatisticsError\<close> on an empty list; on floats it
  otherwise sums exactly, divides exactly and returns the double nearest to that quotient.
  \<^verbatim>\<open>max\<close> raises \<^verbatim>\<open>ValueError\<close> on an empty list, and \<^verbatim>\<open>data[-1]\<close> raises
  \<^verbatim>\<open>IndexError\<close>.

  \<^verbatim>\<open>round(x, ndigits)\<close> on a float rounds the exact value of \<open>x\<close> to \<open>ndigits\<close> decimal
  digits, a tie going to the even digit, and returns the double nearest to that decimal.

  Both raise \<^verbatim>\<open>OverflowError\<close> when the result exceeds the largest double. That cannot
  happen here: the mean of doubles lies between two of them, and the rounding of a double
  stays within the largest double (lemmas \<open>nearest_double_in_range\<close> and
  \<open>round_py_in_range\<close>); so the model has no such branch.
\<close>

definition mean :: "rat list \<Rightarrow> error + rat" where
  "mean xs =
    (if xs = [] then Inl StatisticsError
     else Inr (nearest_double (sum_list xs / of_nat (length xs))))"

definition max_py :: "rat list \<Rightarrow> error + rat" where
  "max_py xs = (case xs of [] \<Rightarrow> Inl ValueError | x # rest \<Rightarrow> Inr (foldl max x rest))"

definition last_py :: "'a list \<Rightarrow> error + 'a" where
  "last_py xs = (if xs = [] then Inl IndexError else Inr (last xs))"

definition round_py :: "rat \<Rightarrow> nat \<Rightarrow> rat" where
  "round_py x ndigits =
    nearest_double (of_int (round_half_even (x * 10 ^ ndigits)) / 10 ^ ndigits)"

text \<open>
  The arguments of the \<^verbatim>\<open>Insights(...)\<close> call are evaluated in the order written, so on
  an empty list the first one, \<^verbatim>\<open>statistics.mean(latencies)\<close>, raises.
\<close>

definition compute_insights :: "InputData list \<Rightarrow> error + Insights" where
  "compute_insights data =
    (let latencies = map latency_ms data;
         cpu_usages = map cpu_usage data;
         memory_usages = map memory_usage data;
         error_rates = map error_rate data
     in case mean latencies of Inl e \<Rightarrow> Inl e | Inr avg_latency \<Rightarrow>
        (case max_py cpu_usages of Inl e \<Rightarrow> Inl e | Inr max_cpu \<Rightarrow>
        (case max_py memory_usages of Inl e \<Rightarrow> Inl e | Inr max_memory \<Rightarrow>
        (case mean error_rates of Inl e \<Rightarrow> Inl e | Inr avg_error \<Rightarrow>
        (case last_py data of Inl e \<Rightarrow> Inl e | Inr last_entry \<Rightarrow>
           Inr \<lparr>average_latency_ms = round_py avg_latency 2,
                max_cpu_usage = round_py max_cpu 2,
                max_memory_usage = round_py max_memory 2,
                error_rate_ins = round_py avg_error 4,
                uptime_seconds_ins = uptime_seconds last_entry\<rparr>)))))"

section \<open>Service status aggregation\<close>

text \<open>
  \<^verbatim>\<open>status_tracker\<close> is a dict with the three keys \<^verbatim>\<open>"online"\<close>,
  \<^verbatim>\<open>"degraded"\<close>, \<^verbatim>\<open>"offline"\<close>, each holding a set; no key is ever added or
  removed, so it is a record of three sets.
\<close>

record StatusTracker =
  online_set :: "string set"
  degraded_set :: "string set"
  offline_set :: "string set"

text \<open>
  \<^verbatim>\<open>status_tracker[status].add(service)\<close>: the subscript raises \<^verbatim>\<open>KeyError\<close> when
  \<open>status\<close> is not one of the three keys.
\<close>

definition tracker_add :: "string \<Rightarrow> string \<Rightarrow> StatusTracker \<Rightarrow> error + StatusTracker" where
  "tracker_add status service tr =
    (if status = ''online'' then Inr (tr\<lparr>online_set := insert service (online_set tr)\<rparr>)
     else if status = ''degraded'' then Inr (tr\<lparr>degraded_set := insert service (degraded_set tr)\<rparr>)
     else if status = ''offline'' then Inr (tr\<lparr>offline_set := insert service (offline_set tr)\<rparr>)
     else Inl (KeyError status))"

text \<open>\<^verbatim>\<open>entry.service_status.model_dump().items()\<close>: the declared fields, in order.\<close>

definition model_dump_items :: "ServiceStatus \<Rightarrow> (string \<times> string) list" where
  "model_dump_items s =
    [(''database'', database s), (''api_gateway'', api_gateway s), (''cache'', cache s)]"

text \<open>The inner and the outer loop; an exception ends both.\<close>

fun track_items :: "StatusTracker \<Rightarrow> (string \<times> string) list \<Rightarrow> error + StatusTracker" where
  "track_items tr [] = Inr tr"
| "track_items tr ((service, status) # rest) =
    (case tracker_add status service tr of
       Inl e \<Rightarrow> Inl e
     | Inr tr' \<Rightarrow> track_items tr' rest)"

fun track_entries :: "StatusTracker \<Rightarrow> InputData list \<Rightarrow> error + StatusTracker" where
  "track_entries tr [] = Inr tr"
| "track_entries tr (entry # rest) =
    (case track_items tr (model_dump_items (service_status entry)) of
       Inl e \<Rightarrow> Inl e
     | Inr tr' \<Rightarrow> track_entries tr' rest)"

text \<open>
  The two \<^verbatim>\<open>discard\<close> passes. Discarding every element of one set from another is set
  difference, whatever the order of iteration; the second pass reads the degraded set as the
  first pass left it.
\<close>

definition remove_duplicates :: "StatusTracker \<Rightarrow> StatusTracker" where
  "remove_duplicates tr =
    (let tr1 =
           (if offline_set tr \<noteq> {} then
              tr\<lparr>degraded_set := degraded_set tr - offline_set tr,
                 online_set := online_set tr - offline_set tr\<rparr>
            else tr);
         tr2 =
           (if degraded_set tr1 \<noteq> {} then
              tr1\<lparr>online_set := online_set tr1 - degraded_set tr1\<rparr>
            else tr1)
     in tr2)"

text \<open>\<^verbatim>\<open>sorted(list(s))\<close> of a set of strings: ascending in the lexicographic order.\<close>

definition aggregate_service_status :: "InputData list \<Rightarrow> error + ServiceStatusSummary" where
  "aggregate_service_status data =
    (case track_entries \<lparr>online_set = {}, degraded_set = {}, offline_set = {}\<rparr> data of
       Inl e \<Rightarrow> Inl e
     | Inr tr \<Rightarrow>
         (let tr' = remove_duplicates tr in
          Inr \<lparr>online = sorted_list_of_set (online_set tr'),
               degraded = sorted_list_of_set (degraded_set tr'),
               offline = sorted_list_of_set (offline_set tr')\<rparr>))"

section \<open>The analysis node\<close>

text \<open>
  \<^verbatim>\<open>analysis_node\<close>: insights first, then the anomaly scan, then the service status
  aggregation; the three results are written to the state only at the end, so an exception
  leaves no result.
\<close>

definition analysis_node :: "'a GraphState_scheme \<Rightarrow> error + 'a GraphState_scheme" where
  "analysis_node state =
    (let data = parsed_data state in
     case compute_insights data of
       Inl e \<Rightarrow> Inl e
     | Inr ins \<Rightarrow>
         (let anomaly_map = detect_anomalies data in
          case aggregate_service_status data of
            Inl e \<Rightarrow> Inl e
          | Inr summary \<Rightarrow>
              Inr (state\<lparr>insights := Some ins,
                         anomalies := map snd anomaly_map,
                         service_status_summary := Some summary\<rparr>)))"

section \<open>Vocabulary of the properties\<close>

text \<open>
  The invariant of the anomaly map: the anomaly stored under a key carries that key as its
  metric, its severity is not \<open>Low\<close>, and the anomaly under \<^verbatim>\<open>"io_wait"\<close> has
  severity \<open>Medium\<close> and threshold 10.
\<close>

definition slots_ok :: "anomaly_map \<Rightarrow> bool" where
  "slots_ok m =
    (\<forall>k a. map_of m k = Some a \<longrightarrow>
       metric a = k \<and> severity a \<noteq> Low \<and>
       (k = ''io_wait'' \<longrightarrow> severity a = Medium \<and> threshold a = 10))"

text \<open>
  All (service, status) reports of a snapshot sequence, in the order the aggregation reads
  them; the services ever reported in a given status; and the sequences in which every
  reported status is one of the three keys of the tracker.
\<close>

definition reports :: "InputData list \<Rightarrow> (string \<times> string) list" where
  "reports data = concat (map (\<lambda>entry. model_dump_items (service_status entry)) data)"

definition ever_reported :: "string \<Rightarrow> InputData list \<Rightarrow> string set" where
  "ever_reported status data = set (map fst (filter (\<lambda>p. snd p = status) (reports data)))"

definition recognised :: "string \<Rightarrow> bool" where
  "recognised status = (status = ''online'' \<or> status = ''degraded'' \<or> status = ''offline'')"

definition statuses_recognised :: "InputData list \<Rightarrow> bool" where
  "statuses_recognised data = list_all (\<lambda>p. recognised (snd p)) (reports data)"

text \<open>The services that a list of reports names in a given status.\<close>

definition named :: "string \<Rightarrow> (string \<times> string) list \<Rightarrow> string set" where
  "named status items = set (map fst (filter (\<lambda>p. snd p = status) items))"

text \<open>
  What the scan keeps for a metric, read off the blocks: for a metric with a single
  threshold, the value of a breach replaces the stored value when the slot is empty or the
  value is strictly greater (\<open>keep_max\<close>); for cpu_usage, the stored value and severity
  (\<open>cpu_keep\<close>). \<open>breaches thr vs\<close> are the values above a threshold, in order.
\<close>

definition keep_max :: "rat \<Rightarrow> rat \<Rightarrow> rat option \<Rightarrow> rat option" where
  "keep_max thr v slot =
    (if v > thr then
       (case slot of None \<Rightarrow> Some v | Some old \<Rightarrow> if v > old then Some v else Some old)
     else slot)"

definition breaches :: "rat \<Rightarrow> rat list \<Rightarrow> rat list" where
  "breaches thr vs = filter (\<lambda>v. v > thr) vs"

definition cpu_keep :: "rat \<Rightarrow> (rat \<times> Severity) option \<Rightarrow> (rat \<times> Severity) option" where
  "cpu_keep v slot =
    (if v > 85 then
       (case slot of None \<Rightarrow> Some (v, High)
        | Some old \<Rightarrow> if v > fst old then Some (v, High) else slot)
     else if v > 75 then
       (case slot of None \<Rightarrow> Some (v, Medium) | Some old \<Rightarrow> slot)
     else slot)"

text \<open>
  A rational is (the value of) a finite double when rounding to the nearest double leaves
  it as it is and it does not exceed the largest double.
\<close>

definition is_double :: "rat \<Rightarrow> bool" where
  "is_double x = (nearest_double x = x \<and> \<bar>x\<bar> \<le> max_double)"

text \<open>
  Concrete inputs, taken from \<^verbatim>\<open>test_pipeline.py\<close>: the snapshot of
  \<^verbatim>\<open>test_no_anomalies_when_within_thresholds\<close>, the snapshot of
  \<^verbatim>\<open>test_multiple_anomaly_detection\<close>, and the initial state the tests build around
  their data. The literals \<^verbatim>\<open>0.01\<close> and \<^verbatim>\<open>0.08\<close> are the doubles
  5764607523034235 / 2^59 and 5764607523034235 / 2^56.
\<close>

definition snapshot_normal :: InputData where
  "snapshot_normal =
    \<lparr>timestamp = ''2023-10-01T12:00:00Z'', cpu_usage = 50, memory_usage = 60,
     latency_ms = 100, disk_usage = 50, network_in_kbps = 1000, network_out_kbps = 800,
     io_wait = 3, thread_count = 100, active_connections = 30,
     error_rate = 5764607523034235 / 576460752303423488, uptime_seconds = 10000,
     temperature_celsius = 60, power_consumption_watts = 200,
     service_status = \<lparr>database = ''online'', api_gateway = ''online'', cache = ''online''\<rparr>\<rparr>"

definition snapshot_multiple :: InputData where
  "snapshot_multiple =
    \<lparr>timestamp = ''2023-10-01T12:00:00Z'', cpu_usage = 90, memory_usage = 85,
     latency_ms = 300, disk_usage = 50, network_in_kbps = 1000, network_out_kbps = 800,
     io_wait = 12, thread_count = 100, active_connections = 30,
     error_rate = 5764607523034235 / 72057594037927936, uptime_seconds = 10000,
     temperature_celsius = 80, power_consumption_watts = 200,
     service_status = \<lparr>database = ''online'', api_gateway = ''online'', cache = ''online''\<rparr>\<rparr>"

definition initial_state :: "InputData list \<Rightarrow> GraphState" where
  "initial_state data =
    \<lparr>parsed_data = data, insights = None, anomalies = [], service_status_summary = None\<rparr>"

text \<open>
  Two scans over snapshots that differ from the normal one in \<^verbatim>\<open>cpu_usage\<close> only:
  78 then 80 (both between the medium and the high threshold), and 90, 80, 95.
\<close>

definition snapshots_medium_rising :: "InputData list" where
  "snapshots_medium_rising =
    [snapshot_normal\<lparr>cpu_usage := 78\<rparr>, snapshot_normal\<lparr>cpu_usage := 80\<rparr>]"

definition snapshots_high_medium_high :: "InputData list" where
  "snapshots_high_medium_high =
    [snapshot_normal\<lparr>cpu_usage := 90\<rparr>, snapshot_normal\<lparr>cpu_usage := 80\<rparr>,
     snapshot_normal\<lparr>cpu_usage := 95\<rparr>]"

text \<open>
  The two snapshots of \<^verbatim>\<open>test_service_status_prioritization\<close>, which report the
  services in conflicting states; a snapshot whose database status is a string that is not a
  key of the tracker; three snapshots whose largest uptime is in the middle; and a snapshot
  whose latency is 100 + 1/512 milliseconds (exactly a double).
\<close>

definition snapshots_status_conflict :: "InputData list" where
  "snapshots_status_conflict =
    [snapshot_normal\<lparr>service_status :=
       \<lparr>database = ''online'', api_gateway = ''degraded'', cache = ''online''\<rparr>\<rparr>,
     snapshot_normal\<lparr>uptime_seconds := 11800, service_status :=
       \<lparr>database = ''offline'', api_gateway = ''online'', cache = ''degraded''\<rparr>\<rparr>]"

definition snapshot_maintenance :: InputData where
  "snapshot_maintenance =
    snapshot_normal\<lparr>service_status :=
      \<lparr>database = ''maintenance'', api_gateway = ''online'', cache = ''online''\<rparr>\<rparr>"

definition snapshots_uptime :: "InputData list" where
  "snapshots_uptime =
    [snapshot_normal\<lparr>uptime_seconds := 10000\<rparr>, snapshot_normal\<lparr>uptime_seconds := 99999\<rparr>,
     snapshot_normal\<lparr>uptime_seconds := 11800\<rparr>]"

definition snapshot_latency :: InputData where
  "snapshot_latency = snapshot_normal\<lparr>latency_ms := 51201 / 512\<rparr>"

section \<open>The anomaly map during the scan\<close>

subsection \<open>Keys stay distinct\<close>

lemma distinct_cpu_check: "distinct (map fst m) \<Longrightarrow> distinct (map fst (cpu_check e m))"
  by (simp add: cpu_check_def distinct_update split: option.split)

lemma distinct_memory_check: "distinct (map fst m) \<Longrightarrow> distinct (map fst (memory_check e m))"
  by (simp add: memory_check_def distinct_update split: option.split)

lemma distinct_latency_check: "distinct (map fst m) \<Longrightarrow> distinct (map fst (latency_check e m))"
  by (simp add: latency_check_def distinct_update split: option.split)

lemma distinct_error_rate_check:
  "distinct (map fst m) \<Longrightarrow> distinct (map fst (error_rate_check e m))"
  by (simp add: error_rate_check_def distinct_update split: option.split)

lemma distinct_temperature_check:
  "distinct (map fst m) \<Longrightarrow> distinct (map fst (temperature_check e m))"
  by (simp add: temperature_check_def distinct_update split: option.split)

lemma distinct_io_wait_check: "distinct (map fst m) \<Longrightarrow> distinct (map fst (io_wait_check e m))"
  by (simp add: io_wait_check_def distinct_update split: option.split)

lemma distinct_detect_step: "distinct (map fst m) \<Longrightarrow> distinct (map fst (detect_step e m))"
  unfolding detect_step_def
  by (intro distinct_io_wait_check distinct_temperature_check distinct_error_rate_check
        distinct_latency_check distinct_memory_check distinct_cpu_check)

lemma distinct_detect_loop:
  "distinct (map fst m) \<Longrightarrow> distinct (map fst (detect_loop m data))"
  by (induction data arbitrary: m) (simp_all add: distinct_detect_step)

subsection \<open>Every slot holds an anomaly of its own metric\<close>

lemma slots_ok_cpu_check: "slots_ok m \<Longrightarrow> slots_ok (cpu_check e m)"
  by (auto simp add: slots_ok_def cpu_check_def update_conv' split: option.split if_splits)

lemma slots_ok_memory_check: "slots_ok m \<Longrightarrow> slots_ok (memory_check e m)"
  by (auto simp add: slots_ok_def memory_check_def update_conv' split: option.split if_splits)

lemma slots_ok_latency_check: "slots_ok m \<Longrightarrow> slots_ok (latency_check e m)"
  by (auto simp add: slots_ok_def latency_check_def update_conv' split: option.split if_splits)

lemma slots_ok_error_rate_check: "slots_ok m \<Longrightarrow> slots_ok (error_rate_check e m)"
  by (auto simp add: slots_ok_def error_rate_check_def update_conv' split: option.split if_splits)

lemma slots_ok_temperature_check: "slots_ok m \<Longrightarrow> slots_ok (temperature_check e m)"
  by (auto simp add: slots_ok_def temperature_check_def update_conv' split: option.split if_splits)

lemma slots_ok_io_wait_check: "slots_ok m \<Longrightarrow> slots_ok (io_wait_check e m)"
  by (auto simp add: slots_ok_def io_wait_check_def THRESHOLDS_io_wait_high_def update_conv'
           split: option.split if_splits)

lemma slots_ok_detect_step: "slots_ok m \<Longrightarrow> slots_ok (detect_step e m)"
  unfolding detect_step_def
  by (intro slots_ok_io_wait_check slots_ok_temperature_check slots_ok_error_rate_check
        slots_ok_latency_check slots_ok_memory_check slots_ok_cpu_check)

lemma slots_ok_detect_loop: "slots_ok m \<Longrightarrow> slots_ok (detect_loop m data)"
  by (induction data arbitrary: m) (simp_all add: slots_ok_detect_step)

lemma slots_ok_empty: "slots_ok []"
  by (simp add: slots_ok_def)

lemma slot_of_output:
  assumes "distinct (map fst m)" and "slots_ok m" and "a \<in> set (map snd m)"
  shows "map_of m (metric a) = Some a"
proof -
  from assms(3) obtain k where "(k, a) \<in> set m" by auto
  with assms(1) have "map_of m k = Some a" by simp
  with assms(2) show ?thesis by (auto simp add: slots_ok_def)
qed

lemma output_of_slot: "map_of m k = Some a \<Longrightarrow> a \<in> set (map snd m)"
  by (auto dest: map_of_SomeD intro: rev_image_eqI)

lemma metrics_are_keys:
  assumes "distinct (map fst m)" and "slots_ok m"
  shows "map metric (map snd m) = map fst m"
proof -
  have "\<And>p. p \<in> set m \<Longrightarrow> metric (snd p) = fst p"
  proof -
    fix p assume "p \<in> set m"
    then have "(fst p, snd p) \<in> set m" by simp
    with assms(1) have "map_of m (fst p) = Some (snd p)" by (rule map_of_is_SomeI)
    with assms(2) show "metric (snd p) = fst p" by (simp add: slots_ok_def)
  qed
  then show ?thesis by simp
qed

subsection \<open>A block touches its own key only\<close>

lemma cpu_check_other: "k \<noteq> ''cpu_usage'' \<Longrightarrow> map_of (cpu_check e m) k = map_of m k"
  by (simp add: cpu_check_def update_conv' split: option.split)

lemma memory_check_other: "k \<noteq> ''memory_usage'' \<Longrightarrow> map_of (memory_check e m) k = map_of m k"
  by (simp add: memory_check_def update_conv' split: option.split)

lemma latency_check_other: "k \<noteq> ''latency_ms'' \<Longrightarrow> map_of (latency_check e m) k = map_of m k"
  by (simp add: latency_check_def update_conv' split: option.split)

lemma error_rate_check_other:
  "k \<noteq> ''error_rate'' \<Longrightarrow> map_of (error_rate_check e m) k = map_of m k"
  by (simp add: error_rate_check_def update_conv' split: option.split)

lemma temperature_check_other:
  "k \<noteq> ''temperature_celsius'' \<Longrightarrow> map_of (temperature_check e m) k = map_of m k"
  by (simp add: temperature_check_def update_conv' split: option.split)

lemma io_wait_check_other: "k \<noteq> ''io_wait'' \<Longrightarrow> map_of (io_wait_check e m) k = map_of m k"
  by (simp add: io_wait_check_def update_conv' split: option.split)

lemma detect_step_cpu_slot:
  "map_of (detect_step e m) ''cpu_usage'' = map_of (cpu_check e m) ''cpu_usage''"
  by (simp add: detect_step_def io_wait_check_other temperature_check_other
        error_rate_check_other latency_check_other memory_check_other)

lemma detect_step_io_wait_slot:
  "map_of (detect_step e m) ''io_wait'' = map_of (io_wait_check e m) ''io_wait''"
proof -
  let ?m' = "temperature_check e (error_rate_check e (latency_check e (memory_check e (cpu_check e m))))"
  have same: "map_of ?m' ''io_wait'' = map_of m ''io_wait''"
    by (simp add: temperature_check_other error_rate_check_other latency_check_other
          memory_check_other cpu_check_other)
  have "map_of (io_wait_check e ?m') ''io_wait'' = map_of (io_wait_check e m) ''io_wait''"
    by (simp add: io_wait_check_def update_conv' same split: option.split)
  then show ?thesis by (simp add: detect_step_def)
qed

lemma io_wait_check_recorded:
  "(map_of (io_wait_check e m) ''io_wait'' \<noteq> None) =
     (map_of m ''io_wait'' \<noteq> None \<or> 10 < io_wait e)"
  by (auto simp add: io_wait_check_def THRESHOLDS_io_wait_high_def update_conv'
           split: option.split)

lemma detect_loop_io_wait_recorded:
  "(map_of (detect_loop m data) ''io_wait'' \<noteq> None) =
     (map_of m ''io_wait'' \<noteq> None \<or> (\<exists>e\<in>set data. 10 < io_wait e))"
proof (induction data arbitrary: m)
  case Nil
  show ?case by simp
next
  case (Cons e rest)
  have "(map_of (detect_step e m) ''io_wait'' \<noteq> None) =
          (map_of m ''io_wait'' \<noteq> None \<or> 10 < io_wait e)"
    by (simp only: detect_step_io_wait_slot io_wait_check_recorded)
  with Cons.IH [of "detect_step e m"] show ?case by auto
qed

lemma detect_anomalies_wf:
  "distinct (map fst (detect_anomalies data)) \<and> slots_ok (detect_anomalies data)"
  by (simp add: detect_anomalies_def distinct_detect_loop slots_ok_detect_loop slots_ok_empty)

lemma slots_okD:
  "slots_ok m \<Longrightarrow> map_of m k = Some a \<Longrightarrow>
     metric a = k \<and> severity a \<noteq> Low \<and>
     (k = ''io_wait'' \<longrightarrow> severity a = Medium \<and> threshold a = 10)"
  unfolding slots_ok_def by blast

subsection \<open>The cpu_usage slot\<close>

lemma detect_loop_append:
  "detect_loop m (xs @ ys) = detect_loop (detect_loop m xs) ys"
  by (induction xs arbitrary: m) simp_all

lemma cpu_check_keeps_high:
  assumes "map_of m ''cpu_usage'' = Some a" and "severity a = High"
  shows "\<exists>a'. map_of (cpu_check e m) ''cpu_usage'' = Some a' \<and> severity a' = High
           \<and> value_anom a \<le> value_anom a'"
  using assms by (auto simp add: cpu_check_def update_conv')

lemma cpu_check_not_high_unchanged:
  assumes "map_of m ''cpu_usage'' = Some a" and "cpu_usage e \<le> 85"
  shows "cpu_check e m = m"
  using assms by (simp add: cpu_check_def THRESHOLDS_cpu_usage_high_def)

lemma detect_step_keeps_high:
  assumes "map_of m ''cpu_usage'' = Some a" and "severity a = High"
  shows "\<exists>a'. map_of (detect_step e m) ''cpu_usage'' = Some a' \<and> severity a' = High
           \<and> value_anom a \<le> value_anom a'"
  using cpu_check_keeps_high [OF assms] by (simp only: detect_step_cpu_slot)

lemma detect_loop_keeps_high:
  assumes "map_of m ''cpu_usage'' = Some a" and "severity a = High"
  shows "\<exists>a'. map_of (detect_loop m data) ''cpu_usage'' = Some a' \<and> severity a' = High
           \<and> value_anom a \<le> value_anom a'"
  using assms
proof (induction data arbitrary: m a)
  case Nil
  then show ?case by simp
next
  case (Cons e rest)
  from detect_step_keeps_high [OF Cons.prems, of e]
  obtain b where b: "map_of (detect_step e m) ''cpu_usage'' = Some b" "severity b = High"
    "value_anom a \<le> value_anom b" by blast
  from Cons.IH [OF b(1) b(2)]
  obtain c where "map_of (detect_loop (detect_step e m) rest) ''cpu_usage'' = Some c"
    "severity c = High" "value_anom b \<le> value_anom c" by blast
  with b(3) show ?case by auto
qed

section \<open>The status tracker\<close>

lemma tracker_add_returns:
  "recognised status \<Longrightarrow> \<exists>tr'. tracker_add status service tr = Inr tr'"
  by (auto simp add: tracker_add_def recognised_def)

lemma tracker_add_fails:
  "\<not> recognised status \<Longrightarrow> tracker_add status service tr = Inl (KeyError status)"
  by (simp add: tracker_add_def recognised_def)

lemma tracker_add_sets:
  assumes "tracker_add status service tr = Inr tr'"
  shows "online_set tr' = online_set tr \<union> (if status = ''online'' then {service} else {})
       \<and> degraded_set tr' = degraded_set tr \<union> (if status = ''degraded'' then {service} else {})
       \<and> offline_set tr' = offline_set tr \<union> (if status = ''offline'' then {service} else {})"
  using assms by (auto simp add: tracker_add_def split: if_splits)

lemma named_Nil: "named status [] = {}"
  by (simp add: named_def)

lemma named_Cons:
  "named status ((service, st) # rest) =
     (if st = status then {service} else {}) \<union> named status rest"
  by (auto simp add: named_def)

lemma track_items_sets:
  "track_items tr items = Inr tr' \<Longrightarrow>
     online_set tr' = online_set tr \<union> named ''online'' items
   \<and> degraded_set tr' = degraded_set tr \<union> named ''degraded'' items
   \<and> offline_set tr' = offline_set tr \<union> named ''offline'' items"
proof (induction tr items arbitrary: tr' rule: track_items.induct)
  case (1 tr)
  then show ?case by (simp add: named_Nil)
next
  case (2 tr service status rest)
  from "2.prems" obtain tr1 where t1: "tracker_add status service tr = Inr tr1"
    and rest: "track_items tr1 rest = Inr tr'"
    by (auto split: sum.splits)
  from "2.IH" [OF t1 rest] tracker_add_sets [OF t1]
  show ?case by (simp only: named_Cons) blast
qed


lemma track_items_fails:
  "\<not> list_all (\<lambda>p. recognised (snd p)) items \<Longrightarrow>
     \<exists>status. \<not> recognised status \<and> track_items tr items = Inl (KeyError status)"
proof (induction tr items rule: track_items.induct)
  case (1 tr)
  then show ?case by simp
next
  case (2 tr service status rest)
  show ?case
  proof (cases "recognised status")
    case False
    then show ?thesis by (auto simp add: tracker_add_fails)
  next
    case True
    from tracker_add_returns [OF True] obtain tr1
      where t1: "tracker_add status service tr = Inr tr1" by blast
    from True "2.prems" have "\<not> list_all (\<lambda>p. recognised (snd p)) rest" by simp
    from "2.IH" [OF t1 this] t1 show ?thesis by simp
  qed
qed

lemma track_items_append:
  "track_items tr (xs @ ys) =
     (case track_items tr xs of Inl e \<Rightarrow> Inl e | Inr tr' \<Rightarrow> track_items tr' ys)"
  by (induction tr xs rule: track_items.induct) (simp_all split: sum.splits)

lemma track_entries_reports: "track_entries tr data = track_items tr (reports data)"
proof (induction tr data rule: track_entries.induct)
  case (1 tr)
  show ?case by (simp add: reports_def)
next
  case (2 tr entry rest)
  have "reports (entry # rest) = model_dump_items (service_status entry) @ reports rest"
    by (simp add: reports_def)
  with 2 show ?case by (simp add: track_items_append split: sum.splits)
qed

lemma ever_reported_named: "ever_reported status data = named status (reports data)"
  by (simp add: ever_reported_def named_def)


lemma aggregate_fails:
  assumes "\<not> statuses_recognised data"
  shows "\<exists>status. \<not> recognised status \<and> aggregate_service_status data = Inl (KeyError status)"
proof -
  from assms have "\<not> list_all (\<lambda>p. recognised (snd p)) (reports data)"
    by (simp add: statuses_recognised_def)
  from track_items_fails [OF this, of "\<lparr>online_set = {}, degraded_set = {}, offline_set = {}\<rparr>"]
  show ?thesis by (auto simp add: aggregate_service_status_def track_entries_reports)
qed

lemma aggregate_sets:
  assumes "aggregate_service_status data = Inr s"
  shows "set (offline s) = ever_reported ''offline'' data
       \<and> set (degraded s) = ever_reported ''degraded'' data - ever_reported ''offline'' data
       \<and> set (online s) = ever_reported ''online'' data - ever_reported ''degraded'' data
                             - ever_reported ''offline'' data
       \<and> sorted_wrt (<) (online s) \<and> sorted_wrt (<) (degraded s) \<and> sorted_wrt (<) (offline s)"
proof -
  let ?on = "ever_reported ''online'' data" and ?de = "ever_reported ''degraded'' data"
    and ?off = "ever_reported ''offline'' data"
  from assms obtain tr where tr: "track_entries \<lparr>online_set = {}, degraded_set = {}, offline_set = {}\<rparr> data = Inr tr"
    and s: "s = \<lparr>online = sorted_list_of_set (online_set (remove_duplicates tr)),
               degraded = sorted_list_of_set (degraded_set (remove_duplicates tr)),
               offline = sorted_list_of_set (offline_set (remove_duplicates tr))\<rparr>"
    by (auto simp add: aggregate_service_status_def Let_def split: sum.splits)
  from tr have "track_items \<lparr>online_set = {}, degraded_set = {}, offline_set = {}\<rparr> (reports data) = Inr tr"
    by (simp only: track_entries_reports)
  from track_items_sets [OF this]
  have sets: "online_set tr = ?on" "degraded_set tr = ?de" "offline_set tr = ?off"
    by (simp_all add: ever_reported_named)
  have fin: "finite ?on" "finite ?de" "finite ?off"
    by (simp_all add: ever_reported_def)
  have rd: "offline_set (remove_duplicates tr) = ?off"
    "degraded_set (remove_duplicates tr) = ?de - ?off"
    "online_set (remove_duplicates tr) = ?on - ?de - ?off"
    using sets by (auto simp add: remove_duplicates_def Let_def)
  from fin have "set (sorted_list_of_set ?off) = ?off"
    "set (sorted_list_of_set (?de - ?off)) = ?de - ?off"
    "set (sorted_list_of_set (?on - ?de - ?off)) = ?on - ?de - ?off"
    by simp_all
  with s rd show ?thesis by (simp add: strict_sorted_list_of_set)
qed

lemma reported_names:
  assumes "statuses_recognised data"
  shows "fst ` set (reports data) =
    ever_reported ''online'' data \<union> ever_reported ''degraded'' data \<union> ever_reported ''offline'' data"
proof -
  from assms have "\<And>p. p \<in> set (reports data) \<Longrightarrow>
      snd p = ''online'' \<or> snd p = ''degraded'' \<or> snd p = ''offline''"
    by (simp add: statuses_recognised_def list_all_iff recognised_def)
  then show ?thesis by (auto simp add: ever_reported_def) force
qed

lemma aggregate_recognised:
  "aggregate_service_status data = Inr s \<Longrightarrow> statuses_recognised data"
  using aggregate_fails [of data] by auto

lemma names_of_reports:
  "data \<noteq> [] \<Longrightarrow> fst ` set (reports data) = {''api_gateway'', ''cache'', ''database''}"
  by (cases data) (auto simp add: reports_def model_dump_items_def)

lemma aggregate_union:
  assumes "aggregate_service_status data = Inr s"
  shows "set (online s) \<union> set (degraded s) \<union> set (offline s) = fst ` set (reports data)"
proof -
  let ?on = "ever_reported ''online'' data" and ?de = "ever_reported ''degraded'' data"
    and ?off = "ever_reported ''offline'' data"
  from aggregate_sets [OF assms]
  have off: "set (offline s) = ?off" and de: "set (degraded s) = ?de - ?off"
    and on: "set (online s) = ?on - ?de - ?off" by simp_all
  have "(?on - ?de - ?off) \<union> (?de - ?off) \<union> ?off = ?on \<union> ?de \<union> ?off" by blast
  with reported_names [OF aggregate_recognised [OF assms]] show ?thesis
    by (simp only: on de off)
qed

section \<open>Insights and the result of the node\<close>


lemma max_py_nonempty: "xs \<noteq> [] \<Longrightarrow> max_py xs = Inr (Max (set xs))"
proof -
  assume "xs \<noteq> []"
  then obtain x rest where xs: "xs = x # rest" by (cases xs) auto
  have "foldl max x rest = fold max rest x"
    by (simp add: foldl_conv_fold max.commute)
  moreover have "Max (set (x # rest)) = fold max rest x" by (rule Max.set_eq_fold)
  ultimately show ?thesis by (simp only: xs max_py_def list.case)
qed

lemma compute_insights_nonempty:
  assumes "data \<noteq> []"
  shows "compute_insights data =
    Inr \<lparr>average_latency_ms =
           round_py (nearest_double (sum_list (map latency_ms data) / of_nat (length data))) 2,
         max_cpu_usage = round_py (Max (set (map cpu_usage data))) 2,
         max_memory_usage = round_py (Max (set (map memory_usage data))) 2,
         error_rate_ins =
           round_py (nearest_double (sum_list (map error_rate data) / of_nat (length data))) 4,
         uptime_seconds_ins = uptime_seconds (last data)\<rparr>"
  using assms by (simp add: compute_insights_def mean_def max_py_nonempty last_py_def)

lemma analysis_node_insights:
  "analysis_node state = Inr state' \<Longrightarrow>
     \<exists>ins. compute_insights (parsed_data state) = Inr ins \<and> insights state' = Some ins"
  by (auto simp add: analysis_node_def Let_def split: sum.splits)



subsection \<open>Rounding to the nearest double\<close>

lemma round_half_even_near: "\<bar>of_int (round_half_even x) - x\<bar> \<le> 1 / 2"
proof -
  define f where "f = \<lfloor>x\<rfloor>"
  define d where "d = x - of_int f"
  have lo: "0 \<le> d" and hi: "d < 1" unfolding d_def f_def by linarith+
  have x: "x = of_int f + d" by (simp add: d_def)
  have r: "round_half_even x =
      (if d < 1 / 2 then f else if d > 1 / 2 then f + 1 else if even f then f else f + 1)"
    by (simp add: round_half_even_def Let_def f_def d_def)
  consider "d < 1 / 2" | "d > 1 / 2" | "d = 1 / 2" by linarith
  then show ?thesis
  proof cases
    case 1
    with r have "round_half_even x = f" by simp
    then have "of_int (round_half_even x) - x = - d" by (simp add: x)
    with lo 1 show ?thesis by simp
  next
    case 2
    with r have "round_half_even x = f + 1" by simp
    then have "of_int (round_half_even x) - x = 1 - d" by (simp add: x)
    with hi 2 show ?thesis by simp
  next
    case 3
    with r have "round_half_even x = f \<or> round_half_even x = f + 1" by simp
    then have "of_int (round_half_even x) - x = - d \<or> of_int (round_half_even x) - x = 1 - d"
    proof
      assume "round_half_even x = f"
      then have "of_int (round_half_even x) - x = - d" by (simp add: x)
      then show ?thesis ..
    next
      assume "round_half_even x = f + 1"
      then have "of_int (round_half_even x) - x = 1 - d" by (simp add: x)
      then show ?thesis ..
    qed
    with 3 show ?thesis by auto
  qed
qed

lemma round_half_even_of_int: "round_half_even (of_int n) = n"
  by (simp add: round_half_even_def)

lemma round_half_even_mono:
  assumes "x \<le> y"
  shows "round_half_even x \<le> round_half_even y"
proof (rule ccontr)
  assume "\<not> round_half_even x \<le> round_half_even y"
  then have "round_half_even y + 1 \<le> round_half_even x" by simp
  then have gap: "(of_int (round_half_even y) :: rat) + 1 \<le> of_int (round_half_even x)"
    by (metis of_int_1 of_int_add of_int_le_iff)
  have nx: "\<bar>of_int (round_half_even x) - x\<bar> \<le> 1 / 2" by (rule round_half_even_near)
  have ny: "\<bar>of_int (round_half_even y) - y\<bar> \<le> 1 / 2" by (rule round_half_even_near)
  from gap nx ny assms have "x = y" by (simp only: abs_le_iff) linarith
  with \<open>\<not> round_half_even x \<le> round_half_even y\<close> show False by simp
qed

lemma round_to_quantum_mono:
  assumes "0 < q" and "a \<le> b"
  shows "round_to_quantum q a \<le> round_to_quantum q b"
proof -
  from assms have "a / q \<le> b / q" by (simp add: divide_right_mono)
  then have "round_half_even (a / q) \<le> round_half_even (b / q)" by (rule round_half_even_mono)
  then have "(of_int (round_half_even (a / q)) :: rat) \<le> of_int (round_half_even (b / q))"
    by simp
  with assms(1) show ?thesis by (simp add: round_to_quantum_def mult_right_mono)
qed

lemma round_to_quantum_multiple:
  assumes "0 < q"
  shows "round_to_quantum q (of_int n * q) = of_int n * q"
  using assms by (simp add: round_to_quantum_def round_half_even_of_int)

lemma binade_bounds:
  assumes "0 < x"
  shows "2 powi binade x \<le> x \<and> x < 2 powi (binade x + 1)"
proof -
  obtain p q where pq: "quotient_of x = (p, q)" by (cases "quotient_of x")
  then have q: "0 < q" by (rule quotient_of_denom_pos)
  from pq have x: "x = of_int p / of_int q" by (rule quotient_of_div)
  with assms q have p: "0 < p" by (simp add: zero_less_divide_iff)
  define bp where "bp = bitlen p"
  define bq where "bq = bitlen q"
  define d where "d = bp - bq"
  from bitlen_bounds [OF p] have p1: "2 ^ nat (bp - 1) \<le> p" and p2: "p < 2 ^ nat bp"
    by (simp_all add: bp_def)
  from bitlen_bounds [OF q] have q1: "2 ^ nat (bq - 1) \<le> q" and q2: "q < 2 ^ nat bq"
    by (simp_all add: bq_def)
  have bp1: "1 \<le> bp" using p2 p by (cases "bp \<le> 0") (auto simp add: bp_def)
  have bq1: "1 \<le> bq" using q2 q by (cases "bq \<le> 0") (auto simp add: bq_def)
  have rp1: "(2::rat) powi (bp - 1) \<le> of_int p"
  proof -
    from p1 have "(of_int (2 ^ nat (bp - 1)) :: rat) \<le> of_int p" by (simp only: of_int_le_iff)
    with bp1 show ?thesis by (simp add: power_int_def)
  qed
  have rp2: "of_int p < (2::rat) powi bp"
  proof -
    from p2 have "(of_int p :: rat) < of_int (2 ^ nat bp)" by (simp only: of_int_less_iff)
    with bp1 show ?thesis by (simp add: power_int_def)
  qed
  have rq1: "(2::rat) powi (bq - 1) \<le> of_int q"
  proof -
    from q1 have "(of_int (2 ^ nat (bq - 1)) :: rat) \<le> of_int q" by (simp only: of_int_le_iff)
    with bq1 show ?thesis by (simp add: power_int_def)
  qed
  have rq2: "of_int q < (2::rat) powi bq"
  proof -
    from q2 have "(of_int q :: rat) < of_int (2 ^ nat bq)" by (simp only: of_int_less_iff)
    with bq1 show ?thesis by (simp add: power_int_def)
  qed
  have qpos: "(0::rat) < of_int q" using q by simp
  have ppos: "(0::rat) < of_int p" using p by simp
  have up: "x < 2 powi (d + 1)"
  proof -
    have "of_int p * (2::rat) powi (bq - 1) < 2 powi bp * of_int q"
      using rp2 rq1 ppos qpos
      by (meson less_le_trans mult_le_cancel_left_pos mult_less_cancel_right_pos zero_less_power_int
            zero_less_numeral)
    then have "of_int p / of_int q < (2::rat) powi bp / 2 powi (bq - 1)"
      using qpos by (simp add: divide_simps mult.commute)
    also have "(2::rat) powi bp / 2 powi (bq - 1) = 2 powi (d + 1)"
      by (simp add: d_def power_int_diff [symmetric] algebra_simps)
    finally show ?thesis by (simp only: x)
  qed
  have lo: "2 powi (d - 1) < x"
  proof -
    have "(2::rat) powi (bp - 1) * of_int q < of_int p * 2 powi bq"
      using rp1 rq2 ppos qpos
      by (meson le_less_trans mult_less_cancel_left_pos mult_le_cancel_right_pos zero_less_power_int
            zero_less_numeral mult_right_mono less_imp_le mult_strict_left_mono)
    then have "(2::rat) powi (bp - 1) / 2 powi bq < of_int p / of_int q"
      using qpos by (simp add: divide_simps mult.commute)
    moreover have "(2::rat) powi (bp - 1) / 2 powi bq = 2 powi (d - 1)"
      by (simp add: d_def power_int_diff [symmetric] algebra_simps)
    ultimately show ?thesis by (simp only: x)
  qed
  have b: "binade x = (if 2 powi d \<le> x then d else d - 1)"
    by (simp add: binade_def pq d_def bp_def bq_def Let_def)
  show ?thesis
  proof (cases "2 powi d \<le> x")
    case True
    with b up show ?thesis by simp
  next
    case False
    with b lo show ?thesis by simp
  qed
qed

lemma binade_mono:
  assumes "0 < x" and "x \<le> y"
  shows "binade x \<le> binade y"
proof (rule ccontr)
  assume "\<not> binade x \<le> binade y"
  then have "binade y + 1 \<le> binade x" by simp
  then have "(2::rat) powi (binade y + 1) \<le> 2 powi binade x"
    by (intro power_int_increasing) simp_all
  moreover from assms have "0 < y" by simp
  ultimately have "y < x" using binade_bounds [of x] binade_bounds [of y] assms(1) by linarith
  with assms(2) show False by simp
qed

lemma round_to_quantum_nonneg:
  assumes "0 < q" and "0 \<le> a"
  shows "0 \<le> round_to_quantum q a"
proof -
  have "round_to_quantum q (of_int 0 * q) = of_int 0 * q"
    using assms(1) by (rule round_to_quantum_multiple)
  then have z: "round_to_quantum q 0 = 0" by simp
  from round_to_quantum_mono [OF assms(1) assms(2)] z show ?thesis by simp
qed

lemma pow2_top: "(2::rat) powi (e + 1) = of_int (2 ^ 53) * 2 powi (e - 52)"
proof -
  have "e + 1 = (e - 52) + 53" by simp
  then have "(2::rat) powi (e + 1) = 2 powi ((e - 52) + 53)" by (rule arg_cong)
  also have "\<dots> = 2 powi (e - 52) * 2 powi 53" by (rule power_int_add) simp
  also have "(2::rat) powi 53 = of_int (2 ^ 53)" by (simp add: power_int_def)
  finally show ?thesis by (simp add: mult.commute)
qed

lemma pow2_bottom: "(2::rat) powi e = of_int (2 ^ 52) * 2 powi (e - 52)"
proof -
  have "e = (e - 52) + 52" by simp
  then have "(2::rat) powi e = 2 powi ((e - 52) + 52)" by (rule arg_cong)
  also have "\<dots> = 2 powi (e - 52) * 2 powi 52" by (rule power_int_add) simp
  also have "(2::rat) powi 52 = of_int (2 ^ 52)" by (simp add: power_int_def)
  finally show ?thesis by (simp add: mult.commute)
qed

lemma magnitude_mono:
  assumes "0 < a" and "a \<le> b"
  shows "round_to_quantum (2 powi (max (binade a) (- 1022) - 52)) a
       \<le> round_to_quantum (2 powi (max (binade b) (- 1022) - 52)) b"
proof -
  define ea where "ea = max (binade a) (- 1022)"
  define eb where "eb = max (binade b) (- 1022)"
  have qa: "(0::rat) < 2 powi (ea - 52)" and qb: "(0::rat) < 2 powi (eb - 52)" by simp_all
  from assms have "binade a \<le> binade b" by (rule binade_mono)
  then have le: "ea \<le> eb" by (simp add: ea_def eb_def)
  show ?thesis unfolding ea_def [symmetric] eb_def [symmetric]
  proof (cases "ea = eb")
    case True
    with round_to_quantum_mono [OF qb assms(2)] show
      "round_to_quantum (2 powi (ea - 52)) a \<le> round_to_quantum (2 powi (eb - 52)) b" by simp
  next
    case False
    with le have lt: "ea + 1 \<le> eb" by simp
    then have "- 1022 < eb" by (simp add: ea_def)
    then have beb: "binade b = eb" by (simp add: eb_def max_def split: if_splits)
    from assms have bpos: "0 < b" by simp
    from binade_bounds [OF assms(1)] have "a < 2 powi (binade a + 1)" by simp
    also have "(2::rat) powi (binade a + 1) \<le> 2 powi (ea + 1)"
      by (intro power_int_increasing) (simp_all add: ea_def)
    finally have "a \<le> 2 powi (ea + 1)" by simp
    from round_to_quantum_mono [OF qa this]
    have "round_to_quantum (2 powi (ea - 52)) a
        \<le> round_to_quantum (2 powi (ea - 52)) (of_int (2 ^ 53) * 2 powi (ea - 52))"
      by (simp only: pow2_top)
    also have "\<dots> = of_int (2 ^ 53) * 2 powi (ea - 52)"
      using qa by (rule round_to_quantum_multiple)
    also have "\<dots> = 2 powi (ea + 1)" by (simp only: pow2_top)
    also from lt have "(2::rat) powi (ea + 1) \<le> 2 powi eb"
      by (intro power_int_increasing) simp_all
    also have "(2::rat) powi eb = round_to_quantum (2 powi (eb - 52)) (of_int (2 ^ 52) * 2 powi (eb - 52))"
      using round_to_quantum_multiple [OF qb, of "2 ^ 52"] by (simp only: pow2_bottom [of eb, symmetric])
    also have "\<dots> \<le> round_to_quantum (2 powi (eb - 52)) b"
    proof (rule round_to_quantum_mono [OF qb])
      from binade_bounds [OF bpos] beb have "2 powi eb \<le> b" by simp
      then show "of_int (2 ^ 52) * 2 powi (eb - 52) \<le> b" by (simp only: pow2_bottom [of eb, symmetric])
    qed
    finally show "round_to_quantum (2 powi (ea - 52)) a \<le> round_to_quantum (2 powi (eb - 52)) b" .
  qed
qed

lemma nearest_double_nonneg: "0 \<le> x \<Longrightarrow> 0 \<le> nearest_double x"
  by (cases "x = 0") (simp_all add: nearest_double_def round_to_quantum_nonneg)

lemma nearest_double_minus: "nearest_double (- x) = - nearest_double x"
  by (simp add: nearest_double_def sgn_if)

lemma nearest_double_mono:
  assumes "x \<le> y"
  shows "nearest_double x \<le> nearest_double y"
proof -
  consider "0 < x" | "x \<le> 0" "0 \<le> y" | "y < 0" by linarith
  then show ?thesis
  proof cases
    case 1
    with assms have "0 < y" by simp
    with 1 magnitude_mono [OF 1 assms] show ?thesis by (simp add: nearest_double_def)
  next
    case 2
    from 2(1) have "0 \<le> - x" by simp
    then have "0 \<le> nearest_double (- x)" by (rule nearest_double_nonneg)
    then have "nearest_double x \<le> 0" by (simp add: nearest_double_minus)
    also from 2(2) have "0 \<le> nearest_double y" by (rule nearest_double_nonneg)
    finally show ?thesis .
  next
    case 3
    with assms have "0 < - y" and "- y \<le> - x" by simp_all
    from magnitude_mono [OF this] 3 assms
    have "nearest_double (- y) \<le> nearest_double (- x)" by (simp add: nearest_double_def)
    then show ?thesis by (simp add: nearest_double_minus)
  qed
qed

lemma pow2_less_imp_less:
  assumes "(2::rat) powi m < 2 powi n"
  shows "m < n"
proof (rule ccontr)
  assume "\<not> m < n"
  then have "n \<le> m" by simp
  then have "(2::rat) powi n \<le> 2 powi m" by (intro power_int_increasing) simp_all
  with assms show False by simp
qed

lemma binade_unique:
  assumes "0 < x" and "2 powi e \<le> x" and "x < 2 powi (e + 1)"
  shows "binade x = e"
proof (rule antisym)
  from binade_bounds [OF assms(1)] assms(3) have "(2::rat) powi binade x < 2 powi (e + 1)"
    by linarith
  then have "binade x < e + 1" by (rule pow2_less_imp_less)
  then show "binade x \<le> e" by simp
  from binade_bounds [OF assms(1)] assms(2) have "(2::rat) powi e < 2 powi (binade x + 1)"
    by linarith
  then have "e < binade x + 1" by (rule pow2_less_imp_less)
  then show "e \<le> binade x" by simp
qed

lemma max_double_pos: "0 < max_double"
  by (simp add: max_double_def)

lemma max_double_quantum: "max_double = of_int (2 ^ 53 - 1) * 2 powi (1023 - 52)"
  by (simp add: max_double_def power_int_def)

lemma binade_max_double: "binade max_double = 1023"
proof (rule binade_unique [OF max_double_pos])
  have "(2::rat) powi 1023 = of_int (2 ^ 52) * 2 powi (1023 - 52)" by (rule pow2_bottom)
  also have "\<dots> \<le> of_int (2 ^ 53 - 1) * 2 powi (1023 - 52)"
    by (intro mult_right_mono) simp_all
  finally show "2 powi 1023 \<le> max_double" by (simp only: max_double_quantum)
  have "of_int (2 ^ 53 - 1) * (2::rat) powi (1023 - 52) < of_int (2 ^ 53) * 2 powi (1023 - 52)"
    by (intro mult_strict_right_mono) simp_all
  also have "\<dots> = 2 powi (1023 + 1)" by (rule pow2_top [symmetric])
  finally show "max_double < 2 powi (1023 + 1)" by (simp only: max_double_quantum)
qed

lemma nearest_double_max: "nearest_double max_double = max_double"
proof -
  have "round_to_quantum (2 powi (1023 - 52)) (of_int (2 ^ 53 - 1) * 2 powi (1023 - 52)) =
      of_int (2 ^ 53 - 1) * 2 powi (1023 - 52)"
    by (rule round_to_quantum_multiple) simp
  then have "round_to_quantum (2 powi (1023 - 52)) max_double = max_double"
    by (simp only: max_double_quantum [symmetric])
  with max_double_pos show ?thesis
    by (simp add: nearest_double_def binade_max_double)
qed

lemma nearest_double_in_range:
  assumes "\<bar>x\<bar> \<le> max_double"
  shows "\<bar>nearest_double x\<bar> \<le> max_double"
proof -
  from assms have "- max_double \<le> x" and "x \<le> max_double" by (simp_all add: abs_le_iff)
  then have "nearest_double (- max_double) \<le> nearest_double x"
    and "nearest_double x \<le> nearest_double max_double"
    by (simp_all add: nearest_double_mono)
  then show ?thesis by (simp add: nearest_double_minus nearest_double_max abs_le_iff)
qed

lemma round_py_mono:
  assumes "x \<le> y"
  shows "round_py x n \<le> round_py y n"
proof -
  from assms have "x * 10 ^ n \<le> y * 10 ^ n" by (simp add: mult_right_mono)
  then have "round_half_even (x * 10 ^ n) \<le> round_half_even (y * 10 ^ n)"
    by (rule round_half_even_mono)
  then have "(of_int (round_half_even (x * 10 ^ n)) :: rat) / 10 ^ n
      \<le> of_int (round_half_even (y * 10 ^ n)) / 10 ^ n"
    by (simp add: divide_right_mono)
  then show ?thesis unfolding round_py_def by (rule nearest_double_mono)
qed

lemma max_double_int: "max_double = of_int ((2 ^ 53 - 1) * 2 ^ 971)"
  by (simp add: max_double_def)

lemma round_py_of_int: "round_py (of_int m) n = nearest_double (of_int m)"
proof -
  have "(of_int m :: rat) * 10 ^ n = of_int (m * 10 ^ n)" by simp
  then have "round_half_even (of_int m * 10 ^ n) = m * 10 ^ n"
    by (simp only: round_half_even_of_int)
  then show ?thesis by (simp add: round_py_def)
qed

lemma round_py_in_range:
  assumes "\<bar>x\<bar> \<le> max_double"
  shows "\<bar>round_py x n\<bar> \<le> max_double"
proof -
  from assms have lo: "- max_double \<le> x" and hi: "x \<le> max_double"
    by (simp_all add: abs_le_iff)
  have top: "round_py max_double n = max_double"
    by (simp only: max_double_int round_py_of_int)
       (simp only: max_double_int [symmetric] nearest_double_max)
  have "- max_double = of_int (- ((2 ^ 53 - 1) * 2 ^ 971))"
    by (simp only: max_double_int of_int_minus)
  then have "round_py (- max_double) n = nearest_double (- max_double)"
    by (simp only: round_py_of_int)
  then have bot: "round_py (- max_double) n = - max_double"
    by (simp only: nearest_double_minus nearest_double_max)
  from round_py_mono [OF lo, of n] round_py_mono [OF hi, of n] top bot
  show ?thesis by (simp add: abs_le_iff)
qed

subsection \<open>The mean\<close>

lemma sum_list_upper:
  fixes xs :: "rat list"
  shows "(\<And>x. x \<in> set xs \<Longrightarrow> x \<le> b) \<Longrightarrow> sum_list xs \<le> of_nat (length xs) * b"
  by (induction xs) (auto simp add: algebra_simps add_mono)

lemma sum_list_lower:
  fixes xs :: "rat list"
  shows "(\<And>x. x \<in> set xs \<Longrightarrow> b \<le> x) \<Longrightarrow> of_nat (length xs) * b \<le> sum_list xs"
  by (induction xs) (auto simp add: algebra_simps add_mono)

lemma mean_between:
  fixes xs :: "rat list"
  assumes "xs \<noteq> []"
  shows "Min (set xs) \<le> sum_list xs / of_nat (length xs)
       \<and> sum_list xs / of_nat (length xs) \<le> Max (set xs)"
proof -
  from assms have n: "(0::rat) < of_nat (length xs)" by simp
  have "sum_list xs \<le> of_nat (length xs) * Max (set xs)"
    by (rule sum_list_upper) simp
  with n have up: "sum_list xs / of_nat (length xs) \<le> Max (set xs)"
    by (simp add: pos_divide_le_eq mult.commute)
  have "of_nat (length xs) * Min (set xs) \<le> sum_list xs"
    by (rule sum_list_lower) simp
  with n have lo: "Min (set xs) \<le> sum_list xs / of_nat (length xs)"
    by (simp add: pos_le_divide_eq mult.commute)
  from lo up show ?thesis by (rule conjI)
qed

section \<open>Severities of the detected anomalies\<close>

text \<open>
  C9. For every snapshot sequence, every anomaly in the output of the detector (the values
  of the anomaly map, as a list) has severity medium or high; low is never emitted.
\<close>

theorem severity_medium_or_high:
  "\<forall>a\<in>set (map snd (detect_anomalies data)). severity a = Medium \<or> severity a = High"
proof
  fix a assume a: "a \<in> set (map snd (detect_anomalies data))"
  have d: "distinct (map fst (detect_anomalies data))" and s: "slots_ok (detect_anomalies data)"
    by (simp_all add: detect_anomalies_wf)
  from d s a have "map_of (detect_anomalies data) (metric a) = Some a"
    by (rule slot_of_output)
  with s have "severity a \<noteq> Low" by (blast dest: slots_okD)
  then show "severity a = Medium \<or> severity a = High" by (cases "severity a") simp_all
qed

theorem severity_medium_or_high_witness:
  "map severity (map snd (detect_anomalies [snapshot_multiple])) =
     [High, High, High, High, High, Medium]
   \<and> list_all (\<lambda>a. severity a = Medium \<or> severity a = High)
        (map snd (detect_anomalies [snapshot_multiple]))"
proof -
  have "map severity (map snd (detect_anomalies [snapshot_multiple])) =
      [High, High, High, High, High, Medium]"
    by code_simp
  moreover have "list_all (\<lambda>a. severity a = Medium \<or> severity a = High)
      (map snd (detect_anomalies [snapshot_multiple]))"
    using severity_medium_or_high [of "[snapshot_multiple]"] by (simp only: list_all_iff)
  ultimately show ?thesis by simp
qed

section \<open>The io_wait rule\<close>

text \<open>
  C5. For every snapshot sequence, the output of the detector holds an anomaly of metric
  io_wait exactly when some snapshot has io_wait strictly above 10, and every io_wait anomaly
  in the output has severity medium and threshold 10.
\<close>

theorem io_wait_rule:
  "((\<exists>a\<in>set (map snd (detect_anomalies data)). metric a = ''io_wait'') =
      (\<exists>entry\<in>set data. io_wait entry > 10))
   \<and> (\<forall>a\<in>set (map snd (detect_anomalies data)).
         metric a = ''io_wait'' \<longrightarrow> severity a = Medium \<and> threshold a = 10)"
proof -
  let ?m = "detect_anomalies data"
  have d: "distinct (map fst ?m)" and s: "slots_ok ?m" by (simp_all add: detect_anomalies_wf)
  have rec: "(map_of ?m ''io_wait'' \<noteq> None) = (\<exists>entry\<in>set data. io_wait entry > 10)"
    using detect_loop_io_wait_recorded [of "[]" data] by (simp add: detect_anomalies_def)
  have "(\<exists>a\<in>set (map snd ?m). metric a = ''io_wait'') = (map_of ?m ''io_wait'' \<noteq> None)"
  proof
    assume "\<exists>a\<in>set (map snd ?m). metric a = ''io_wait''"
    then obtain a where a: "a \<in> set (map snd ?m)" and k: "metric a = ''io_wait''" by blast
    from d s a have "map_of ?m (metric a) = Some a" by (rule slot_of_output)
    with k show "map_of ?m ''io_wait'' \<noteq> None" by simp
  next
    assume "map_of ?m ''io_wait'' \<noteq> None"
    then obtain a where a: "map_of ?m ''io_wait'' = Some a" by blast
    then have "a \<in> set (map snd ?m)" by (rule output_of_slot)
    moreover from s a have "metric a = ''io_wait''" by (blast dest: slots_okD)
    ultimately show "\<exists>a\<in>set (map snd ?m). metric a = ''io_wait''" by blast
  qed
  with rec have first: "(\<exists>a\<in>set (map snd ?m). metric a = ''io_wait'') =
      (\<exists>entry\<in>set data. io_wait entry > 10)" by simp
  have second: "\<forall>a\<in>set (map snd ?m).
      metric a = ''io_wait'' \<longrightarrow> severity a = Medium \<and> threshold a = 10"
  proof (intro ballI impI)
    fix a assume a: "a \<in> set (map snd ?m)" and k: "metric a = ''io_wait''"
    from d s a have "map_of ?m (metric a) = Some a" by (rule slot_of_output)
    with k have "map_of ?m ''io_wait'' = Some a" by simp
    with s show "severity a = Medium \<and> threshold a = 10" by (blast dest: slots_okD)
  qed
  from first second show ?thesis by blast
qed

theorem io_wait_rule_witness:
  "(\<exists>entry\<in>set [snapshot_normal, snapshot_multiple]. io_wait entry > 10)
   \<and> (\<exists>a\<in>set (map snd (detect_anomalies [snapshot_normal, snapshot_multiple])).
         metric a = ''io_wait'' \<and> severity a = Medium \<and> threshold a = 10)
   \<and> \<not> (\<exists>entry\<in>set [snapshot_normal]. io_wait entry > 10)
   \<and> \<not> (\<exists>a\<in>set (map snd (detect_anomalies [snapshot_normal])). metric a = ''io_wait'')"
proof -
  have h: "\<exists>entry\<in>set [snapshot_normal, snapshot_multiple]. io_wait entry > 10"
    by (simp add: snapshot_multiple_def)
  have n: "\<not> (\<exists>entry\<in>set [snapshot_normal]. io_wait entry > 10)"
    by (simp add: snapshot_normal_def)
  from h io_wait_rule [of "[snapshot_normal, snapshot_multiple]"]
  have "\<exists>a\<in>set (map snd (detect_anomalies [snapshot_normal, snapshot_multiple])).
         metric a = ''io_wait'' \<and> severity a = Medium \<and> threshold a = 10" by blast
  moreover from n io_wait_rule [of "[snapshot_normal]"]
  have "\<not> (\<exists>a\<in>set (map snd (detect_anomalies [snapshot_normal])). metric a = ''io_wait'')"
    by blast
  ultimately show ?thesis using h n by blast
qed

section \<open>Six simultaneous anomalies\<close>

text \<open>
  C8. The single snapshot with cpu_usage 90, memory_usage 85, latency_ms 300, io_wait 12,
  error_rate 0.08 and temperature_celsius 80 yields exactly six anomalies, one per metric:
  cpu_usage high, memory_usage high, latency_ms high, error_rate high, temperature_celsius
  high and io_wait medium, both in the anomaly map of the scan and in the state the
  analysis node returns.
\<close>

theorem six_anomalies:
  "map (\<lambda>a. (metric a, severity a)) (map snd (detect_anomalies [snapshot_multiple])) =
     [(''cpu_usage'', High), (''memory_usage'', High), (''latency_ms'', High),
      (''error_rate'', High), (''temperature_celsius'', High), (''io_wait'', Medium)]
   \<and> length (map snd (detect_anomalies [snapshot_multiple])) = 6
   \<and> map_sum id (\<lambda>state. map (\<lambda>a. (metric a, severity a)) (anomalies state))
        (analysis_node (initial_state [snapshot_multiple])) =
      Inr [(''cpu_usage'', High), (''memory_usage'', High), (''latency_ms'', High),
           (''error_rate'', High), (''temperature_celsius'', High), (''io_wait'', Medium)]"
  by code_simp

section \<open>A high cpu_usage anomaly is never downgraded\<close>

text \<open>
  C6. The scan after \<open>i\<close> snapshots is \<open>detect_loop [] (take i data)\<close>. Once the
  cpu_usage slot holds an anomaly of severity high, it holds one of severity high (of a value
  at least as large) after every later step \<open>j\<close>; and a next snapshot whose cpu_usage is at
  most 85, in particular one that only crosses the medium threshold, leaves the slot as it is.
\<close>

theorem cpu_high_never_downgraded:
  assumes "map_of (detect_loop [] (take i data)) ''cpu_usage'' = Some a"
    and "severity a = High" and "i \<le> j"
  shows "(\<exists>a'. map_of (detect_loop [] (take j data)) ''cpu_usage'' = Some a'
            \<and> severity a' = High \<and> value_anom a \<le> value_anom a')
     \<and> (j < length data \<and> cpu_usage (data ! j) \<le> 85 \<longrightarrow>
          map_of (detect_loop [] (take (Suc j) data)) ''cpu_usage'' =
          map_of (detect_loop [] (take j data)) ''cpu_usage'')"
proof -
  from \<open>i \<le> j\<close> have "take j data = take i data @ drop i (take j data)"
    by (metis append_take_drop_id min.absorb1 take_take)
  then have "detect_loop [] (take j data) =
      detect_loop (detect_loop [] (take i data)) (drop i (take j data))"
    by (metis detect_loop_append)
  with detect_loop_keeps_high [OF assms(1) assms(2), of "drop i (take j data)"]
  have stays: "\<exists>a'. map_of (detect_loop [] (take j data)) ''cpu_usage'' = Some a'
            \<and> severity a' = High \<and> value_anom a \<le> value_anom a'" by simp
  have "map_of (detect_loop [] (take (Suc j) data)) ''cpu_usage'' =
          map_of (detect_loop [] (take j data)) ''cpu_usage''"
    if h: "j < length data \<and> cpu_usage (data ! j) \<le> 85"
  proof -
    from stays obtain a' where a': "map_of (detect_loop [] (take j data)) ''cpu_usage'' = Some a'"
      by blast
    from h have "take (Suc j) data = take j data @ [data ! j]"
      by (simp add: take_Suc_conv_app_nth)
    then have "detect_loop [] (take (Suc j) data) =
        detect_step (data ! j) (detect_loop [] (take j data))"
      by (simp add: detect_loop_append)
    moreover from h a' have "cpu_check (data ! j) (detect_loop [] (take j data)) =
        detect_loop [] (take j data)"
      by (simp add: cpu_check_not_high_unchanged)
    ultimately show ?thesis by (simp add: detect_step_cpu_slot)
  qed
  with stays show ?thesis by blast
qed

theorem cpu_high_never_downgraded_witness:
  "map_option (\<lambda>a. (value_anom a, severity a))
     (map_of (detect_loop [] (take 1 snapshots_high_medium_high)) ''cpu_usage'') = Some (90, High)
   \<and> cpu_usage (snapshots_high_medium_high ! 1) = 80
   \<and> map_option (\<lambda>a. (value_anom a, severity a))
     (map_of (detect_loop [] (take 2 snapshots_high_medium_high)) ''cpu_usage'') = Some (90, High)"
proof -
  let ?a = "\<lparr>metric = ''cpu_usage'', value_anom = 90, threshold = THRESHOLDS_cpu_usage_high,
            severity = High, description = CpuReached 90 ''2023-10-01T12:00:00Z''\<rparr>"
  have slot: "map_of (detect_loop [] (take 1 snapshots_high_medium_high)) ''cpu_usage'' = Some ?a"
    by code_simp
  have sev: "severity ?a = High" by simp
  have nxt: "1 < length snapshots_high_medium_high
      \<and> cpu_usage (snapshots_high_medium_high ! 1) \<le> 85"
    by (simp add: snapshots_high_medium_high_def)
  have v: "cpu_usage (snapshots_high_medium_high ! 1) = 80"
    by (simp add: snapshots_high_medium_high_def)
  from cpu_high_never_downgraded [OF slot sev order_refl] nxt
  have "map_of (detect_loop [] (take (Suc 1) snapshots_high_medium_high)) ''cpu_usage'' =
      map_of (detect_loop [] (take 1 snapshots_high_medium_high)) ''cpu_usage''" by blast
  with slot have "map_of (detect_loop [] (take 2 snapshots_high_medium_high)) ''cpu_usage'' =
      Some ?a" by (simp add: numeral_2_eq_2)
  with slot v show ?thesis by simp
qed

section \<open>The value kept for a metric\<close>

text \<open>The keys of the anomaly map are the metrics of its anomalies, so no metric occurs twice.\<close>

lemma anomalies_one_per_metric: "distinct (map metric (map snd (detect_anomalies data)))"
proof -
  have "map metric (map snd (detect_anomalies data)) = map fst (detect_anomalies data)"
    by (rule metrics_are_keys) (simp_all add: detect_anomalies_wf)
  moreover have "distinct (map fst (detect_anomalies data))" by (simp add: detect_anomalies_wf)
  ultimately show ?thesis by (simp only:)
qed

text \<open>
  For the five metrics with a single threshold, the stored value is the maximum of the
  breaching values, and the slot is empty when there is no breach.
\<close>

lemma keep_max_fold_Some:
  "foldl (\<lambda>s v. keep_max thr v s) (Some a) vs = Some (Max (insert a (set (breaches thr vs))))"
proof (induction vs arbitrary: a)
  case Nil
  show ?case by (simp add: breaches_def)
next
  case (Cons v vs)
  show ?case
  proof (cases "v > thr")
    case False
    then have "keep_max thr v (Some a) = Some a" by (simp add: keep_max_def)
    with Cons [of a] False show ?thesis by (simp add: breaches_def)
  next
    case True
    then have k: "keep_max thr v (Some a) = Some (max a v)"
      by (auto simp add: keep_max_def max_def)
    have "Max (insert (max a v) (set (breaches thr vs))) =
        Max (insert a (insert v (set (breaches thr vs))))"
    proof (cases "set (breaches thr vs) = {}")
      case True
      then show ?thesis by (simp add: max.commute)
    next
      case False
      then show ?thesis by (simp add: max.assoc)
    qed
    with Cons [of "max a v"] k True show ?thesis by (simp add: breaches_def)
  qed
qed

lemma keep_max_fold_None:
  "foldl (\<lambda>s v. keep_max thr v s) None vs =
     (if breaches thr vs = [] then None else Some (Max (set (breaches thr vs))))"
proof (induction vs)
  case Nil
  show ?case by (simp add: breaches_def)
next
  case (Cons v vs)
  show ?case
  proof (cases "v > thr")
    case False
    then have "keep_max thr v None = None" by (simp add: keep_max_def)
    with Cons False show ?thesis by (simp add: breaches_def)
  next
    case True
    then have "keep_max thr v None = Some v" by (simp add: keep_max_def)
    with keep_max_fold_Some [of thr v vs] True show ?thesis by (simp add: breaches_def)
  qed
qed

lemma memory_check_value:
  "map_option value_anom (map_of (memory_check e m) ''memory_usage'') =
     keep_max THRESHOLDS_memory_usage_high (memory_usage e) (map_option value_anom (map_of m ''memory_usage''))"
  by (simp add: memory_check_def keep_max_def update_conv' split: option.split)

lemma detect_step_memory_value:
  "map_option value_anom (map_of (detect_step e m) ''memory_usage'') =
     keep_max THRESHOLDS_memory_usage_high (memory_usage e) (map_option value_anom (map_of m ''memory_usage''))"
  by (simp add: detect_step_def memory_check_value
        cpu_check_other latency_check_other error_rate_check_other temperature_check_other io_wait_check_other)

lemma latency_check_value:
  "map_option value_anom (map_of (latency_check e m) ''latency_ms'') =
     keep_max THRESHOLDS_latency_ms_high (latency_ms e) (map_option value_anom (map_of m ''latency_ms''))"
  by (simp add: latency_check_def keep_max_def update_conv' split: option.split)

lemma detect_step_latency_value:
  "map_option value_anom (map_of (detect_step e m) ''latency_ms'') =
     keep_max THRESHOLDS_latency_ms_high (latency_ms e) (map_option value_anom (map_of m ''latency_ms''))"
  by (simp add: detect_step_def latency_check_value
        cpu_check_other memory_check_other error_rate_check_other temperature_check_other io_wait_check_other)

lemma error_rate_check_value:
  "map_option value_anom (map_of (error_rate_check e m) ''error_rate'') =
     keep_max THRESHOLDS_error_rate_high (error_rate e) (map_option value_anom (map_of m ''error_rate''))"
  by (simp add: error_rate_check_def keep_max_def update_conv' split: option.split)

lemma detect_step_error_rate_value:
  "map_option value_anom (map_of (detect_step e m) ''error_rate'') =
     keep_max THRESHOLDS_error_rate_high (error_rate e) (map_option value_anom (map_of m ''error_rate''))"
  by (simp add: detect_step_def error_rate_check_value
        cpu_check_other memory_check_other latency_check_other temperature_check_other io_wait_check_other)

lemma temperature_check_value:
  "map_option value_anom (map_of (temperature_check e m) ''temperature_celsius'') =
     keep_max THRESHOLDS_temperature_celsius_high (temperature_celsius e) (map_option value_anom (map_of m ''temperature_celsius''))"
  by (simp add: temperature_check_def keep_max_def update_conv' split: option.split)

lemma detect_step_temperature_value:
  "map_option value_anom (map_of (detect_step e m) ''temperature_celsius'') =
     keep_max THRESHOLDS_temperature_celsius_high (temperature_celsius e) (map_option value_anom (map_of m ''temperature_celsius''))"
  by (simp add: detect_step_def temperature_check_value
        cpu_check_other memory_check_other latency_check_other error_rate_check_other io_wait_check_other)

lemma io_wait_check_value:
  "map_option value_anom (map_of (io_wait_check e m) ''io_wait'') =
     keep_max THRESHOLDS_io_wait_high (io_wait e) (map_option value_anom (map_of m ''io_wait''))"
  by (simp add: io_wait_check_def keep_max_def update_conv' split: option.split)

lemma detect_step_io_wait_value:
  "map_option value_anom (map_of (detect_step e m) ''io_wait'') =
     keep_max THRESHOLDS_io_wait_high (io_wait e) (map_option value_anom (map_of m ''io_wait''))"
  by (simp add: detect_step_def io_wait_check_value
        cpu_check_other memory_check_other latency_check_other error_rate_check_other temperature_check_other)

lemma detect_loop_value:
  assumes "\<And>e m. map_option value_anom (map_of (detect_step e m) k) =
             keep_max thr (f e) (map_option value_anom (map_of m k))"
  shows "map_option value_anom (map_of (detect_loop m data) k) =
           foldl (\<lambda>s v. keep_max thr v s) (map_option value_anom (map_of m k)) (map f data)"
  by (induction data arbitrary: m) (simp_all add: assms)

lemma detect_anomalies_value:
  assumes "\<And>e m. map_option value_anom (map_of (detect_step e m) k) =
             keep_max thr (f e) (map_option value_anom (map_of m k))"
  shows "map_option value_anom (map_of (detect_anomalies data) k) =
           (if breaches thr (map f data) = [] then None
            else Some (Max (set (breaches thr (map f data)))))"
  using detect_loop_value [of k thr f "[]" data, OF assms]
  by (simp add: detect_anomalies_def keep_max_fold_None)

lemma kept_value_is_maximum:
  "map_option value_anom (map_of (detect_anomalies data) ''memory_usage'') =
     (if breaches 80 (map memory_usage data) = [] then None
      else Some (Max (set (breaches 80 (map memory_usage data)))))"
  "map_option value_anom (map_of (detect_anomalies data) ''latency_ms'') =
     (if breaches 250 (map latency_ms data) = [] then None
      else Some (Max (set (breaches 250 (map latency_ms data)))))"
  "map_option value_anom (map_of (detect_anomalies data) ''error_rate'') =
     (if breaches THRESHOLDS_error_rate_high (map error_rate data) = [] then None
      else Some (Max (set (breaches THRESHOLDS_error_rate_high (map error_rate data)))))"
  "map_option value_anom (map_of (detect_anomalies data) ''temperature_celsius'') =
     (if breaches 75 (map temperature_celsius data) = [] then None
      else Some (Max (set (breaches 75 (map temperature_celsius data)))))"
  "map_option value_anom (map_of (detect_anomalies data) ''io_wait'') =
     (if breaches 10 (map io_wait data) = [] then None
      else Some (Max (set (breaches 10 (map io_wait data)))))"
  using detect_anomalies_value [of "''memory_usage''", OF detect_step_memory_value]
    detect_anomalies_value [of "''latency_ms''", OF detect_step_latency_value]
    detect_anomalies_value [of "''error_rate''", OF detect_step_error_rate_value]
    detect_anomalies_value [of "''temperature_celsius''", OF detect_step_temperature_value]
    detect_anomalies_value [of "''io_wait''", OF detect_step_io_wait_value]
  by (simp_all only: THRESHOLDS_memory_usage_high_def THRESHOLDS_latency_ms_high_def
        THRESHOLDS_temperature_celsius_high_def THRESHOLDS_io_wait_high_def)

text \<open>
  For cpu_usage: when some value is above 85, the slot holds the maximum of those values
  (which is the maximum of all values above 75) with severity high; otherwise it holds the
  first value above 75, with severity medium, whatever the later ones are.
\<close>

lemma cpu_check_pair:
  "map_option (\<lambda>a. (value_anom a, severity a)) (map_of (cpu_check e m) ''cpu_usage'') =
     cpu_keep (cpu_usage e)
       (map_option (\<lambda>a. (value_anom a, severity a)) (map_of m ''cpu_usage''))"
  by (simp add: cpu_check_def cpu_keep_def update_conv' THRESHOLDS_cpu_usage_high_def
        THRESHOLDS_cpu_usage_medium_def split: option.split)

lemma detect_loop_cpu_pair:
  "map_option (\<lambda>a. (value_anom a, severity a)) (map_of (detect_loop m data) ''cpu_usage'') =
     foldl (\<lambda>s v. cpu_keep v s)
       (map_option (\<lambda>a. (value_anom a, severity a)) (map_of m ''cpu_usage''))
       (map cpu_usage data)"
  by (induction data arbitrary: m) (simp_all add: detect_step_cpu_slot cpu_check_pair)

lemma cpu_keep_fold_high:
  "foldl (\<lambda>s v. cpu_keep v s) (Some (a, High)) vs =
     Some (Max (insert a (set (breaches 85 vs))), High)"
proof (induction vs arbitrary: a)
  case Nil
  show ?case by (simp add: breaches_def)
next
  case (Cons v vs)
  show ?case
  proof (cases "v > 85")
    case False
    then have "cpu_keep v (Some (a, High)) = Some (a, High)" by (simp add: cpu_keep_def)
    with Cons [of a] False show ?thesis by (simp add: breaches_def)
  next
    case True
    then have k: "cpu_keep v (Some (a, High)) = Some (max a v, High)"
      by (auto simp add: cpu_keep_def max_def)
    have "Max (insert (max a v) (set (breaches 85 vs))) =
        Max (insert a (insert v (set (breaches 85 vs))))"
    proof (cases "set (breaches 85 vs) = {}")
      case True
      then show ?thesis by (simp add: max.commute)
    next
      case False
      then show ?thesis by (simp add: max.assoc)
    qed
    with Cons [of "max a v"] k True show ?thesis by (simp add: breaches_def)
  qed
qed

lemma cpu_keep_fold_medium:
  assumes "a \<le> 85"
  shows "foldl (\<lambda>s v. cpu_keep v s) (Some (a, Medium)) vs =
     (if breaches 85 vs = [] then Some (a, Medium)
      else Some (Max (set (breaches 85 vs)), High))"
proof (induction vs)
  case Nil
  show ?case by (simp add: breaches_def)
next
  case (Cons v vs)
  show ?case
  proof (cases "v > 85")
    case False
    then have "cpu_keep v (Some (a, Medium)) = Some (a, Medium)" by (simp add: cpu_keep_def)
    with Cons False show ?thesis by (simp add: breaches_def)
  next
    case True
    with assms have "cpu_keep v (Some (a, Medium)) = Some (v, High)"
      by (simp add: cpu_keep_def)
    with cpu_keep_fold_high [of v vs] True show ?thesis by (simp add: breaches_def)
  qed
qed

lemma cpu_keep_fold_None:
  "foldl (\<lambda>s v. cpu_keep v s) None vs =
     (if breaches 85 vs \<noteq> [] then Some (Max (set (breaches 85 vs)), High)
      else (case breaches 75 vs of [] \<Rightarrow> None | v # rest \<Rightarrow> Some (v, Medium)))"
proof (induction vs)
  case Nil
  show ?case by (simp add: breaches_def)
next
  case (Cons v vs)
  consider "v > 85" | "v \<le> 85" "v > 75" | "v \<le> 75" by linarith
  then show ?case
  proof cases
    case 1
    then have "cpu_keep v None = Some (v, High)" by (simp add: cpu_keep_def)
    with cpu_keep_fold_high [of v vs] 1 show ?thesis by (simp add: breaches_def)
  next
    case 2
    then have "cpu_keep v None = Some (v, Medium)" by (simp add: cpu_keep_def)
    with cpu_keep_fold_medium [OF 2(1), of vs] 2 show ?thesis by (simp add: breaches_def)
  next
    case 3
    then have "cpu_keep v None = None" by (simp add: cpu_keep_def)
    with Cons 3 show ?thesis by (simp add: breaches_def)
  qed
qed

lemma cpu_kept_value:
  "map_option (\<lambda>a. (value_anom a, severity a)) (map_of (detect_anomalies data) ''cpu_usage'') =
     (if breaches 85 (map cpu_usage data) \<noteq> []
      then Some (Max (set (breaches 85 (map cpu_usage data))), High)
      else (case breaches 75 (map cpu_usage data) of
              [] \<Rightarrow> None
            | v # rest \<Rightarrow> Some (v, Medium)))"
proof -
  have "map_option (\<lambda>a. (value_anom a, severity a))
      (map_of (detect_anomalies data) ''cpu_usage'') =
      foldl (\<lambda>s v. cpu_keep v s) None (map cpu_usage data)"
    using detect_loop_cpu_pair [of "[]" data] by (simp add: detect_anomalies_def)
  then show ?thesis by (simp only: cpu_keep_fold_None)
qed

lemma high_breach_is_maximum:
  assumes "breaches 85 vs \<noteq> []"
  shows "Max (set (breaches 85 vs)) = Max (set (breaches 75 vs))"
proof (rule antisym)
  have sub: "set (breaches 85 vs) \<subseteq> set (breaches 75 vs)" by (auto simp add: breaches_def)
  from assms have ne: "set (breaches 85 vs) \<noteq> {}" by simp
  from sub ne show "Max (set (breaches 85 vs)) \<le> Max (set (breaches 75 vs))"
    by (intro Max_mono) simp_all
  from ne have m: "Max (set (breaches 85 vs)) \<in> set (breaches 85 vs)" by (intro Max_in) simp_all
  then have big: "85 < Max (set (breaches 85 vs))" by (simp add: breaches_def)
  have "\<And>x. x \<in> set (breaches 75 vs) \<Longrightarrow> x \<le> Max (set (breaches 85 vs))"
  proof -
    fix x assume x: "x \<in> set (breaches 75 vs)"
    show "x \<le> Max (set (breaches 85 vs))"
    proof (cases "x > 85")
      case True
      with x have "x \<in> set (breaches 85 vs)" by (simp add: breaches_def)
      then show ?thesis by (intro Max_ge) simp_all
    next
      case False
      with big show ?thesis by linarith
    qed
  qed
  moreover from sub ne have "set (breaches 75 vs) \<noteq> {}" by auto
  ultimately show "Max (set (breaches 75 vs)) \<le> Max (set (breaches 85 vs))"
    by (intro Max.boundedI) simp_all
qed

text \<open>
  C1. The claim: the value of the entry of a metric is the maximum among the snapshots that
  breached its threshold, for cpu_usage among those above 75. The scan over two snapshots
  with cpu_usage 78 and then 80 keeps the anomaly of the first: the block for a medium breach
  writes only when the slot is empty, and never compares values. The output is the single
  cpu_usage anomaly of value 78 and severity medium, while the maximum breaching value is 80.
\<close>

theorem cpu_medium_keeps_first_not_maximum:
  "map (\<lambda>a. (metric a, value_anom a, severity a))
      (map snd (detect_anomalies snapshots_medium_rising)) = [(''cpu_usage'', 78, Medium)]
   \<and> Max (set (filter (\<lambda>v. v > 75) (map cpu_usage snapshots_medium_rising))) = 80"
  by code_simp

section \<open>Service status resolution\<close>

text \<open>
  C3. Whenever the aggregation returns a summary: every service name reported in any
  snapshot is in one of the three output lists, the three lists are pairwise disjoint, the
  offline list holds the services ever reported offline, the degraded list those ever
  reported degraded and never offline, the online list those ever reported online and never
  degraded or offline; and each list is strictly ascending in the lexicographic order of
  strings (sorted, without duplicates).
\<close>

theorem service_in_exactly_one_set:
  assumes "aggregate_service_status data = Inr s"
  shows "set (online s) \<union> set (degraded s) \<union> set (offline s) = fst ` set (reports data)
       \<and> set (online s) \<inter> set (degraded s) = {}
       \<and> set (online s) \<inter> set (offline s) = {}
       \<and> set (degraded s) \<inter> set (offline s) = {}
       \<and> set (offline s) = ever_reported ''offline'' data
       \<and> set (degraded s) = ever_reported ''degraded'' data - ever_reported ''offline'' data
       \<and> set (online s) = ever_reported ''online'' data - ever_reported ''degraded'' data
                             - ever_reported ''offline'' data
       \<and> sorted_wrt (<) (online s) \<and> sorted_wrt (<) (degraded s) \<and> sorted_wrt (<) (offline s)"
proof -
  let ?on = "ever_reported ''online'' data" and ?de = "ever_reported ''degraded'' data"
    and ?off = "ever_reported ''offline'' data"
  note sets = aggregate_sets [OF assms]
  from sets have off: "set (offline s) = ?off" and de: "set (degraded s) = ?de - ?off"
    and on: "set (online s) = ?on - ?de - ?off" by simp_all
  from sets have srt: "sorted_wrt (<) (online s)" "sorted_wrt (<) (degraded s)"
    "sorted_wrt (<) (offline s)" by simp_all
  have d1: "set (online s) \<inter> set (degraded s) = {}" unfolding on de by blast
  have d2: "set (online s) \<inter> set (offline s) = {}" unfolding on off by blast
  have d3: "set (degraded s) \<inter> set (offline s) = {}" unfolding de off by blast
  from aggregate_union [OF assms] d1 d2 d3 off de on srt show ?thesis
    by (intro conjI)
qed

theorem service_in_exactly_one_set_witness:
  "aggregate_service_status snapshots_status_conflict =
     Inr \<lparr>online = [], degraded = [''api_gateway'', ''cache''], offline = [''database'']\<rparr>
   \<and> fst ` set (reports snapshots_status_conflict) = {''api_gateway'', ''cache'', ''database''}
   \<and> ever_reported ''offline'' snapshots_status_conflict = {''database''}
   \<and> ever_reported ''degraded'' snapshots_status_conflict
        - ever_reported ''offline'' snapshots_status_conflict = {''api_gateway'', ''cache''}
   \<and> ever_reported ''online'' snapshots_status_conflict
        - ever_reported ''degraded'' snapshots_status_conflict
        - ever_reported ''offline'' snapshots_status_conflict = {}"
proof -
  let ?s = "\<lparr>online = [], degraded = [''api_gateway'', ''cache''], offline = [''database'']\<rparr>"
  have h: "aggregate_service_status snapshots_status_conflict = Inr ?s"
    by code_simp
  note c = service_in_exactly_one_set [OF h]
  note c4 = c [THEN conjunct2, THEN conjunct2, THEN conjunct2, THEN conjunct2]
  have 1: "fst ` set (reports snapshots_status_conflict) =
      {''api_gateway'', ''cache'', ''database''}"
    using c [THEN conjunct1, symmetric] by (simp add: insert_commute)
  have 2: "ever_reported ''offline'' snapshots_status_conflict = {''database''}"
    using c4 [THEN conjunct1, symmetric] by simp
  have 3: "ever_reported ''degraded'' snapshots_status_conflict
        - ever_reported ''offline'' snapshots_status_conflict = {''api_gateway'', ''cache''}"
    using c4 [THEN conjunct2, THEN conjunct1, symmetric] by simp
  have 4: "ever_reported ''online'' snapshots_status_conflict
        - ever_reported ''degraded'' snapshots_status_conflict
        - ever_reported ''offline'' snapshots_status_conflict = {}"
    using c4 [THEN conjunct2, THEN conjunct2, THEN conjunct1, symmetric] by simp
  from h 1 2 3 4 show ?thesis by (intro conjI)
qed

section \<open>The service names of the summary\<close>

text \<open>
  C10. The items of a service status are those of the three declared fields database,
  api_gateway and cache, whatever the status values; so for a non-empty sequence the three
  lists of a returned summary hold together exactly these three names.
\<close>

theorem summary_names_fixed:
  assumes "data \<noteq> []" and "aggregate_service_status data = Inr s"
  shows "set (online s) \<union> set (degraded s) \<union> set (offline s) =
           {''api_gateway'', ''cache'', ''database''}
       \<and> (\<forall>st. map fst (model_dump_items st) = [''database'', ''api_gateway'', ''cache''])"
proof -
  from aggregate_union [OF assms(2)] names_of_reports [OF assms(1)]
  have "set (online s) \<union> set (degraded s) \<union> set (offline s) =
           {''api_gateway'', ''cache'', ''database''}" by (simp only:)
  moreover have "\<forall>st. map fst (model_dump_items st) = [''database'', ''api_gateway'', ''cache'']"
    by (simp add: model_dump_items_def)
  ultimately show ?thesis by (rule conjI)
qed

theorem summary_names_fixed_witness:
  "snapshots_status_conflict \<noteq> []
   \<and> aggregate_service_status snapshots_status_conflict =
     Inr \<lparr>online = [], degraded = [''api_gateway'', ''cache''], offline = [''database'']\<rparr>
   \<and> set ([]::string list) \<union> set [''api_gateway'', ''cache''] \<union> set [''database'']
       = {''api_gateway'', ''cache'', ''database''}"
proof -
  let ?s = "\<lparr>online = [], degraded = [''api_gateway'', ''cache''], offline = [''database'']\<rparr>"
  have n: "snapshots_status_conflict \<noteq> []" by (simp add: snapshots_status_conflict_def)
  have h: "aggregate_service_status snapshots_status_conflict = Inr ?s"
    by code_simp
  have "set ([]::string list) \<union> set [''api_gateway'', ''cache''] \<union> set [''database'']
       = {''api_gateway'', ''cache'', ''database''}"
    using summary_names_fixed [OF n h, THEN conjunct1] by (simp only: ServiceStatusSummary.simps)
  with n h show ?thesis by (intro conjI)
qed

section \<open>Failure modes of the analysis node\<close>


lemma unrecognised_status_key_error:
  "parsed_data (initial_state [snapshot_maintenance]) \<noteq> []
   \<and> analysis_node (initial_state [snapshot_maintenance]) = Inl (KeyError ''maintenance'')
   \<and> aggregate_service_status [snapshot_maintenance] = Inl (KeyError ''maintenance'')"
  by code_simp



section \<open>The average latency\<close>

text \<open>
  C4, as claimed: the rounded mean lies between the minimum and the maximum latency. For the
  single snapshot of latency 100 + 1/512 ms (a double) the mean is that value, its rounding
  to two decimals is 100, and 100 is below the minimum latency of the input.
\<close>

theorem average_latency_below_minimum:
  "map_sum id average_latency_ms (compute_insights [snapshot_latency]) = Inr 100
   \<and> map_sum id (\<lambda>state. map_option average_latency_ms (insights state))
        (analysis_node (initial_state [snapshot_latency])) = Inr (Some 100)
   \<and> sum_list (map latency_ms [snapshot_latency]) / of_nat (length [snapshot_latency]) = 51201 / 512
   \<and> Min (set (map latency_ms [snapshot_latency])) = 51201 / 512
   \<and> (100 :: rat) < 51201 / 512"
  by code_simp

text \<open>
  C4, amended. For every non-empty sequence whose latencies are doubles, the insights are
  computed and \<^verbatim>\<open>average_latency_ms\<close> is \<^verbatim>\<open>round(statistics.mean(latencies), 2)\<close>:
  the double nearest to the two-decimal rounding (ties to even) of the double nearest to the
  arithmetic mean. That mean, as a double, lies between the minimum and the maximum latency;
  the rounded value lies between the minimum rounded to two decimals and the maximum rounded
  to two decimals, and does not exceed the largest double.
\<close>

theorem average_latency_rounded_mean:
  assumes "parsed_data state \<noteq> []"
    and "\<forall>entry\<in>set (parsed_data state). is_double (latency_ms entry)"
  shows "\<exists>ins. compute_insights (parsed_data state) = Inr ins
     \<and> (\<forall>state'. analysis_node state = Inr state' \<longrightarrow> insights state' = Some ins)
     \<and> average_latency_ms ins =
         round_py (nearest_double (sum_list (map latency_ms (parsed_data state))
                                     / of_nat (length (parsed_data state)))) 2
     \<and> Min (set (map latency_ms (parsed_data state))) \<le>
          nearest_double (sum_list (map latency_ms (parsed_data state))
                            / of_nat (length (parsed_data state)))
     \<and> nearest_double (sum_list (map latency_ms (parsed_data state))
                            / of_nat (length (parsed_data state))) \<le>
          Max (set (map latency_ms (parsed_data state)))
     \<and> round_py (Min (set (map latency_ms (parsed_data state)))) 2 \<le> average_latency_ms ins
     \<and> average_latency_ms ins \<le> round_py (Max (set (map latency_ms (parsed_data state)))) 2
     \<and> \<bar>average_latency_ms ins\<bar> \<le> max_double"
proof -
  let ?data = "parsed_data state"
  let ?lat = "map latency_ms ?data"
  let ?mean = "sum_list ?lat / of_nat (length ?data)"
  let ?ins = "\<lparr>average_latency_ms = round_py (nearest_double ?mean) 2,
         max_cpu_usage = round_py (Max (set (map cpu_usage ?data))) 2,
         max_memory_usage = round_py (Max (set (map memory_usage ?data))) 2,
         error_rate_ins =
           round_py (nearest_double (sum_list (map error_rate ?data) / of_nat (length ?data))) 4,
         uptime_seconds_ins = uptime_seconds (last ?data)\<rparr>"
  have ci: "compute_insights ?data = Inr ?ins" by (rule compute_insights_nonempty [OF assms(1)])
  have node: "\<forall>state'. analysis_node state = Inr state' \<longrightarrow> insights state' = Some ?ins"
    using ci by (auto dest: analysis_node_insights)
  have avg: "average_latency_ms ?ins = round_py (nearest_double ?mean) 2" by simp
  from assms(1) have ne: "?lat \<noteq> []" by simp
  then have "Min (set ?lat) \<in> set ?lat" and "Max (set ?lat) \<in> set ?lat" by simp_all
  with assms(2) have dmin: "is_double (Min (set ?lat))" and dmax: "is_double (Max (set ?lat))"
    by auto
  from mean_between [OF ne]
  have "Min (set ?lat) \<le> ?mean" and "?mean \<le> Max (set ?lat)" by simp_all
  then have "nearest_double (Min (set ?lat)) \<le> nearest_double ?mean"
    and "nearest_double ?mean \<le> nearest_double (Max (set ?lat))"
    by (simp_all add: nearest_double_mono)
  with dmin dmax have lo: "Min (set ?lat) \<le> nearest_double ?mean"
    and up: "nearest_double ?mean \<le> Max (set ?lat)"
    by (simp_all add: is_double_def)
  from lo have lo': "round_py (Min (set ?lat)) 2 \<le> average_latency_ms ?ins"
    unfolding avg by (rule round_py_mono)
  from up have up': "average_latency_ms ?ins \<le> round_py (Max (set ?lat)) 2"
    unfolding avg by (rule round_py_mono)
  from dmin dmax have "\<bar>round_py (Min (set ?lat)) 2\<bar> \<le> max_double"
    and "\<bar>round_py (Max (set ?lat)) 2\<bar> \<le> max_double"
    by (simp_all add: is_double_def round_py_in_range)
  with lo' up' have rng: "\<bar>average_latency_ms ?ins\<bar> \<le> max_double"
    by (simp only: abs_le_iff) linarith
  from ci node avg lo up lo' up' rng show ?thesis by blast
qed

theorem average_latency_rounded_mean_witness:
  "parsed_data (initial_state [snapshot_latency, snapshot_multiple]) \<noteq> []
   \<and> list_all (\<lambda>entry. is_double (latency_ms entry))
        (parsed_data (initial_state [snapshot_latency, snapshot_multiple]))
   \<and> map_sum id average_latency_ms
        (compute_insights (parsed_data (initial_state [snapshot_latency, snapshot_multiple]))) =
       Inr 200
   \<and> (\<exists>ins. compute_insights (parsed_data (initial_state [snapshot_latency, snapshot_multiple]))
               = Inr ins
          \<and> round_py (Min (set (map latency_ms
                (parsed_data (initial_state [snapshot_latency, snapshot_multiple]))))) 2
              \<le> average_latency_ms ins
          \<and> average_latency_ms ins
              \<le> round_py (Max (set (map latency_ms
                (parsed_data (initial_state [snapshot_latency, snapshot_multiple]))))) 2)"
proof -
  let ?state = "initial_state [snapshot_latency, snapshot_multiple]"
  have h: "parsed_data ?state \<noteq> []" by (simp add: initial_state_def)
  have d1: "nearest_double (51201 / 512) = 51201 / 512" by code_simp
  have d2: "nearest_double 300 = 300" by code_simp
  have r1: "\<bar>51201 / 512 :: rat\<bar> \<le> max_double" by (simp add: max_double_def)
  have r2: "\<bar>300 :: rat\<bar> \<le> max_double" by (simp add: max_double_def)
  from d1 d2 r1 r2 have dl: "list_all (\<lambda>entry. is_double (latency_ms entry)) (parsed_data ?state)"
    by (simp add: initial_state_def snapshot_latency_def snapshot_multiple_def
          snapshot_normal_def is_double_def)
  then have d: "\<forall>entry\<in>set (parsed_data ?state). is_double (latency_ms entry)"
    by (simp only: list_all_iff)
  have v: "map_sum id average_latency_ms (compute_insights (parsed_data ?state)) = Inr 200"
    by code_simp
  from average_latency_rounded_mean [OF h d] obtain ins
    where "compute_insights (parsed_data ?state) = Inr ins"
      and "round_py (Min (set (map latency_ms (parsed_data ?state)))) 2 \<le> average_latency_ms ins"
      and "average_latency_ms ins \<le> round_py (Max (set (map latency_ms (parsed_data ?state)))) 2"
    by blast
  then have "\<exists>ins. compute_insights (parsed_data ?state) = Inr ins
      \<and> round_py (Min (set (map latency_ms (parsed_data ?state)))) 2 \<le> average_latency_ms ins
      \<and> average_latency_ms ins \<le> round_py (Max (set (map latency_ms (parsed_data ?state)))) 2"
    by blast
  with h dl v show ?thesis by (intro conjI)
qed

section \<open>The uptime of the insights\<close>

text \<open>
  C7. For every non-empty sequence the insights are computed, and their
  \<^verbatim>\<open>uptime_seconds\<close> is the \<^verbatim>\<open>uptime_seconds\<close> of the last snapshot of the sequence,
  whatever the earlier snapshots hold; a state returned by the analysis node carries these
  insights.
\<close>

theorem uptime_of_last_snapshot:
  assumes "parsed_data state \<noteq> []"
  shows "\<exists>ins. compute_insights (parsed_data state) = Inr ins
     \<and> (\<forall>state'. analysis_node state = Inr state' \<longrightarrow> insights state' = Some ins)
     \<and> uptime_seconds_ins ins = uptime_seconds (last (parsed_data state))"
proof -
  let ?data = "parsed_data state"
  let ?ins = "\<lparr>average_latency_ms =
           round_py (nearest_double (sum_list (map latency_ms ?data) / of_nat (length ?data))) 2,
         max_cpu_usage = round_py (Max (set (map cpu_usage ?data))) 2,
         max_memory_usage = round_py (Max (set (map memory_usage ?data))) 2,
         error_rate_ins =
           round_py (nearest_double (sum_list (map error_rate ?data) / of_nat (length ?data))) 4,
         uptime_seconds_ins = uptime_seconds (last ?data)\<rparr>"
  have ci: "compute_insights ?data = Inr ?ins" by (rule compute_insights_nonempty [OF assms])
  have node: "\<forall>state'. analysis_node state = Inr state' \<longrightarrow> insights state' = Some ?ins"
    using ci by (auto dest: analysis_node_insights)
  have "uptime_seconds_ins ?ins = uptime_seconds (last ?data)" by simp
  with ci node show ?thesis by blast
qed

theorem uptime_of_last_snapshot_witness:
  "parsed_data (initial_state snapshots_uptime) \<noteq> []
   \<and> map uptime_seconds snapshots_uptime = [10000, 99999, 11800]
   \<and> (\<exists>ins. compute_insights (parsed_data (initial_state snapshots_uptime)) = Inr ins
          \<and> uptime_seconds_ins ins = 11800)"
proof -
  let ?state = "initial_state snapshots_uptime"
  have h: "parsed_data ?state \<noteq> []" by (simp add: initial_state_def snapshots_uptime_def)
  have u: "map uptime_seconds snapshots_uptime = [10000, 99999, 11800]"
    by (simp add: snapshots_uptime_def)
  have l: "uptime_seconds (last (parsed_data ?state)) = 11800"
    by (simp add: initial_state_def snapshots_uptime_def)
  from uptime_of_last_snapshot [OF h] obtain ins
    where "compute_insights (parsed_data ?state) = Inr ins"
      and "uptime_seconds_ins ins = uptime_seconds (last (parsed_data ?state))"
    by blast
  with l have "\<exists>ins. compute_insights (parsed_data ?state) = Inr ins
      \<and> uptime_seconds_ins ins = 11800" by simp
  with h u show ?thesis by (intro conjI)
qed

end
